theory Spec2Isabelle
  imports Complex_Main "HOL-Library.Word" "HOL-Library.Sublist"
begin

section \<open>Numeric types of the sketch\<close>

text \<open>
  The sketch computes on \<open>float\<close>/\<open>double\<close>, \<open>int8_t\<close>, \<open>int\<close> and
  \<open>unsigned long\<close>. A store into an \<open>int8_t\<close> keeps the low eight bits, two's
  complement. The conversion of a floating value to \<open>int\<close> truncates toward zero,
  as C does.
\<close>

definition int8_t :: "int \<Rightarrow> int" where
  "int8_t v = (v + 128) mod 256 - 128"

definition float_to_int :: "real \<Rightarrow> int" where
  "float_to_int v = (if 0 \<le> v then \<lfloor>v\<rfloor> else \<lceil>v\<rceil>)"

text \<open>
  The sketch runs on an Arduino Uno, whose \<open>int\<close> has 16 bits: the largest value is
  32767, and an increment at that value overflows (undefined behaviour in C).
\<close>

definition INT_MAX :: int where
  "INT_MAX = 32767"

text \<open>
  Single precision. A \<open>float\<close> has 24 significant bits and its smallest step is
  \<open>2 ^ -149\<close>; every operation gives the exact result rounded to the nearest
  \<open>float\<close>, a tie going to the even neighbour. \<open>single x\<close> is that rounding of
  the real \<open>x\<close>: the step \<open>2 ^ g\<close> is fixed by the power of two at or below
  \<open>\<bar>x\<bar>\<close>, and \<open>x\<close> goes to the nearest multiple of the step. Values beyond the
  largest \<open>float\<close> (overflow to infinity) are not modelled.
\<close>

definition round_even :: "real \<Rightarrow> int" where
  "round_even y =
     (let f = \<lfloor>y\<rfloor>
      in if y - real_of_int f < 1 / 2 then f
         else if 1 / 2 < y - real_of_int f then f + 1
         else if even f then f else f + 1)"

definition pow2 :: "int \<Rightarrow> real" where
  "pow2 e = 2 powr real_of_int e"

definition single :: "real \<Rightarrow> real" where
  "single x =
     (if x = 0 then 0
      else (let g = max (\<lfloor>log 2 \<bar>x\<bar>\<rfloor> - 23) (- 149)
            in real_of_int (round_even (x / pow2 g)) * pow2 g))"

text \<open>The values a \<open>float\<close> can hold are multiples of the smallest step.\<close>

definition on_grid :: "real \<Rightarrow> bool" where
  "on_grid x \<longleftrightarrow> (\<exists>j. x = real_of_int j * pow2 (- 149))"

section \<open>Graph window (advanced build): \<open>graphColor\<close>, \<open>calculateGraphPosition\<close>\<close>

text \<open>
  One plotted channel owns four globals: the running minimum and maximum (both start at
  the sentinel \<open>-1\<close>), the number of stored positions and the array of positions.
  The array is a list as long as the C array is declared; an index outside it is
  undefined behaviour in C and is \<open>None\<close> here.
\<close>

record graph =
  xMin :: real
  xMax :: real
  xLen :: int
  xAr :: "int list"

definition graph_init :: "nat \<Rightarrow> graph" where
  "graph_init cap = \<lparr>xMin = -1, xMax = -1, xLen = 0, xAr = replicate cap 0\<rparr>"

text \<open>
  \<^verbatim>\<open>if (minX != maxX) return ((measurement - minX)/(maxX-minX)) * height; return 0;\<close>
  The two differences, the quotient and the product (by \<open>height\<close> converted to
  \<open>float\<close>) are single-precision operations, each rounded. The function returns
  \<open>int\<close>, so the product is then truncated.
\<close>

definition calculateGraphPosition :: "real \<Rightarrow> real \<Rightarrow> int \<Rightarrow> real \<Rightarrow> int" where
  "calculateGraphPosition minX maxX height measurement =
     (if minX \<noteq> maxX
      then float_to_int
             (single (single (single (measurement - minX) / single (maxX - minX))
                      * single (real_of_int height)))
      else 0)"

text \<open>
  \<^verbatim>\<open>for (int8_t i = 1; i < *xLen-1; i++) xAr[i-1] = xAr[i];\<close>
  with \<open>n\<close> the bound \<open>*xLen-1\<close>. The bound is at most 126 (\<open>*xLen\<close> is an
  \<open>int8_t\<close>), so \<open>i++\<close> never leaves the range of \<open>int8_t\<close>.
\<close>

function shiftLoop :: "int \<Rightarrow> int \<Rightarrow> int list \<Rightarrow> int list option" where
  "shiftLoop i n ar =
     (if i < n
      then (if 1 \<le> i \<and> i < int (length ar)
            then shiftLoop (i + 1) n (ar[nat (i - 1) := ar ! nat i])
            else None)
      else Some ar)"
  by pat_completeness auto
termination
  by (relation "measure (\<lambda>(i, n, ar). nat (n - i))") auto

declare shiftLoop.simps [simp del]

text \<open>
  \<open>graphColor\<close> without its drawing calls (the display is an external collaborator).
  The parameter \<open>measurement\<close> is a \<open>float\<close>: the value passed is taken at its
  single-precision rounding \<open>m\<close>. The extrema are updated first, then the position is
  computed against the updated extrema and stored, by appending while the window is not
  full and by shifting otherwise.
\<close>

definition graphColor :: "int \<Rightarrow> int \<Rightarrow> graph \<Rightarrow> real \<Rightarrow> graph option" where
  "graphColor w h g measurement =
     (let m = single measurement;
          mx = (if m > xMax g \<or> xMax g = -1 then m else xMax g);
          mn = (if m < xMin g \<or> xMin g = -1 then m else xMin g);
          result = int8_t (calculateGraphPosition mn mx (h - 1) m)
      in if xLen g < w
         then (if 0 \<le> xLen g \<and> xLen g < int (length (xAr g))
               then Some (g\<lparr>xMin := mn, xMax := mx, xLen := int8_t (xLen g + 1),
                            xAr := (xAr g)[nat (xLen g) := result]\<rparr>)
               else None)
         else (case shiftLoop 1 (xLen g - 1) (xAr g) of
                 None \<Rightarrow> None
               | Some ar \<Rightarrow>
                   if 0 \<le> w - 1 \<and> w - 1 < int (length ar)
                   then Some (g\<lparr>xMin := mn, xMax := mx, xAr := ar[nat (w - 1) := result]\<rparr>)
                   else None))"

text \<open>A run of calls on one channel, in order; the stored sequence is the first
  \<open>xLen\<close> cells of the array.\<close>

fun observe_all :: "int \<Rightarrow> int \<Rightarrow> graph \<Rightarrow> real list \<Rightarrow> graph option" where
  "observe_all w h g [] = Some g"
| "observe_all w h g (m # ms) =
     (case graphColor w h g m of None \<Rightarrow> None | Some g' \<Rightarrow> observe_all w h g' ms)"

definition stored :: "graph \<Rightarrow> int list" where
  "stored g = take (nat (xLen g)) (xAr g)"

section \<open>Floating-point values with infinities and not-a-number\<close>

text \<open>
  A \<open>double\<close> that may be the result of an unguarded division: a finite value
  (idealised as a real), an infinity or not-a-number. The operations follow IEEE 754 on the
  special values. The sign of zero is not modelled: a zero divisor counts as \<open>+0\<close>.
\<close>

datatype dbl = Fin real | PInf | NInf | NaN

definition signed_inf :: "bool \<Rightarrow> dbl" where
  "signed_inf positive = (if positive then PInf else NInf)"

fun is_Fin :: "dbl \<Rightarrow> bool" where
  "is_Fin (Fin a) = True"
| "is_Fin PInf = False"
| "is_Fin NInf = False"
| "is_Fin NaN = False"

fun fneg :: "dbl \<Rightarrow> dbl" where
  "fneg (Fin a) = Fin (- a)"
| "fneg PInf = NInf"
| "fneg NInf = PInf"
| "fneg NaN = NaN"

fun fadd :: "dbl \<Rightarrow> dbl \<Rightarrow> dbl" where
  "fadd (Fin a) (Fin b) = Fin (a + b)"
| "fadd (Fin a) PInf = PInf"
| "fadd (Fin a) NInf = NInf"
| "fadd PInf (Fin b) = PInf"
| "fadd PInf PInf = PInf"
| "fadd PInf NInf = NaN"
| "fadd NInf (Fin b) = NInf"
| "fadd NInf PInf = NaN"
| "fadd NInf NInf = NInf"
| "fadd NaN b = NaN"
| "fadd a NaN = NaN"

definition fsub :: "dbl \<Rightarrow> dbl \<Rightarrow> dbl" where
  "fsub a b = fadd a (fneg b)"

fun fmul :: "dbl \<Rightarrow> dbl \<Rightarrow> dbl" where
  "fmul (Fin a) (Fin b) = Fin (a * b)"
| "fmul (Fin a) PInf = (if a = 0 then NaN else signed_inf (0 < a))"
| "fmul (Fin a) NInf = (if a = 0 then NaN else signed_inf (a < 0))"
| "fmul PInf (Fin b) = (if b = 0 then NaN else signed_inf (0 < b))"
| "fmul NInf (Fin b) = (if b = 0 then NaN else signed_inf (b < 0))"
| "fmul PInf PInf = PInf"
| "fmul PInf NInf = NInf"
| "fmul NInf PInf = NInf"
| "fmul NInf NInf = PInf"
| "fmul NaN b = NaN"
| "fmul a NaN = NaN"

fun fdiv :: "dbl \<Rightarrow> dbl \<Rightarrow> dbl" where
  "fdiv (Fin a) (Fin b) =
     (if b \<noteq> 0 then Fin (a / b) else if a = 0 then NaN else signed_inf (0 < a))"
| "fdiv (Fin a) PInf = Fin 0"
| "fdiv (Fin a) NInf = Fin 0"
| "fdiv PInf (Fin b) = signed_inf (0 \<le> b)"
| "fdiv NInf (Fin b) = signed_inf (b < 0)"
| "fdiv PInf PInf = NaN"
| "fdiv PInf NInf = NaN"
| "fdiv NInf PInf = NaN"
| "fdiv NInf NInf = NaN"
| "fdiv NaN b = NaN"
| "fdiv a NaN = NaN"

text \<open>\<open>a >= b\<close>: false as soon as one side is not-a-number.\<close>

fun fge :: "dbl \<Rightarrow> dbl \<Rightarrow> bool" where
  "fge (Fin a) (Fin b) = (b \<le> a)"
| "fge NaN b = False"
| "fge a NaN = False"
| "fge PInf b = True"
| "fge a NInf = True"
| "fge NInf b = False"
| "fge a PInf = False"

section \<open>The serial line to the storage device\<close>

text \<open>
  What the sketch sends to the OpenLog is recorded call by call. What it receives is the
  list of the results the successive polls of the line give: a byte (0 to 255), or
  \<open>-1\<close> when nothing has arrived at that poll; after the list nothing arrives any more.
  A wait that is never answered does not return: \<open>None\<close>.
\<close>

datatype sd_item =
  PrintStr string
  | PrintInt int
  | PrintULong "32 word"
  | PrintFloat real
  | WriteByte nat

text \<open>The globals of the sketch that the modelled functions read or write.\<close>

record device =
  index :: int
  calibration :: "real list"
  uvCalibration :: int
  currentMenu :: int
  currentSelection :: int
  sd_in :: "int list"
  sd_out :: "sd_item list"

definition boot :: "int list \<Rightarrow> device" where
  "boot inp = \<lparr>index = 0, calibration = [0, 0, 0, 0, 0, 0], uvCalibration = 0,
               currentMenu = 0, currentSelection = 0, sd_in = inp, sd_out = []\<rparr>"

definition emit :: "sd_item list \<Rightarrow> device \<Rightarrow> device" where
  "emit items d = d\<lparr>sd_out := sd_out d @ items\<rparr>"

text \<open>
  \<^verbatim>\<open>while (1) { if (OpenLog.available()) { if (OpenLog.read() == c) break; } }\<close>
\<close>

fun waitForChar_loop :: "int \<Rightarrow> int list \<Rightarrow> int list option" where
  "waitForChar_loop c [] = None"
| "waitForChar_loop c (b # bs) =
     (if b \<noteq> -1 then (if b = c then Some bs else waitForChar_loop c bs)
      else waitForChar_loop c bs)"

definition waitForChar :: "char \<Rightarrow> device \<Rightarrow> device option" where
  "waitForChar c d =
     (case waitForChar_loop (of_char c) (sd_in d) of
        None \<Rightarrow> None
      | Some rest \<Rightarrow> Some (d\<lparr>sd_in := rest\<rparr>))"

definition sendSDCommand :: "string \<Rightarrow> string \<Rightarrow> char \<Rightarrow> device \<Rightarrow> device option" where
  "sendSDCommand command filename confirmation d =
     waitForChar confirmation
       (emit [PrintStr command, PrintStr '' '', PrintStr filename, WriteByte 13] d)"

definition setHomeMenu :: "device \<Rightarrow> device" where
  "setHomeMenu d = d\<lparr>currentMenu := 0, currentSelection := 0\<rparr>"

section \<open>Measuring session (basic build): \<open>measuringMenu1\<close>\<close>

text \<open>
  One iteration of the measuring loop consumes what the environment gives it: the value
  of \<open>millis() - start_time\<close>, the six calibrated readings (finite values), the
  ultraviolet reading, and the level of the select pin at each poll of the debounce
  burst.
\<close>

record sample =
  at_ms :: "32 word"
  spec :: "real list"
  uv :: int
  pins :: "nat \<Rightarrow> int"

text \<open>The locals of \<open>measuringMenu1\<close> that live across iterations. \<open>initial\<close> is
  uninitialised in C until the first iteration assigns it.\<close>

record session =
  x2 :: dbl
  xy :: "dbl list"
  datalen :: int
  initial :: "real list"
  initialTaken :: bool
  past_time :: "32 word"

definition session_init :: session where
  "session_init = \<lparr>x2 = Fin 0, xy = [Fin 0, Fin 0, Fin 0, Fin 0, Fin 0, Fin 0], datalen = 0,
                    initial = [0, 0, 0, 0, 0, 0], initialTaken = False, past_time = 0\<rparr>"

definition maxlen :: int where
  "maxlen = 50"

text \<open>The literal of the sketch; an \<open>int\<close> of 16 bits would not hold it.\<close>

definition signal_resolution_multiplier :: int where
  "signal_resolution_multiplier = 1000000"

definition time_resolution_multiplier :: int where
  "time_resolution_multiplier = 1000"

definition ms_time :: int where
  "ms_time = 300000 div maxlen"

text \<open>
  \<^verbatim>\<open>current_time / (60000.0 / time_resolution_multiplier)\<close>
\<close>

definition current_time_total_minutes :: "32 word \<Rightarrow> dbl" where
  "current_time_total_minutes current_time =
     fdiv (Fin (real (unat current_time)))
          (fdiv (Fin 60000) (Fin (real_of_int time_resolution_multiplier)))"

text \<open>
  \<^verbatim>\<open>((signal_resolution_multiplier * specReadings[i]) / initial[i]) - 1\<close>
\<close>

definition normalized :: "real \<Rightarrow> real \<Rightarrow> dbl" where
  "normalized reading initial_i =
     fsub (fdiv (fmul (Fin (real_of_int signal_resolution_multiplier)) (Fin reading))
                (Fin initial_i))
          (Fin 1)"

text \<open>
  \<^verbatim>\<open>for (int i = 0; i < 6; i++) xy[i] += (...) * current_time_total_minutes;\<close>
  (\<open>updateTimeAverages\<close> fills a grid that nothing reads: \<open>calculateConcentration\<close>
  ignores its arguments; the grid is left out.)
\<close>

definition accumulate :: "dbl \<Rightarrow> real list \<Rightarrow> real list \<Rightarrow> dbl list \<Rightarrow> dbl list" where
  "accumulate x readings initials acc =
     map (\<lambda>i. fadd (acc ! i) (fmul (normalized (readings ! i) (initials ! i)) x)) [0..<6]"

definition take_initial :: "session \<Rightarrow> real list \<Rightarrow> session" where
  "take_initial s readings =
     (if \<not> initialTaken s
      then s\<lparr>initial := map (\<lambda>i. readings ! i) [0..<6], initialTaken := True\<rparr>
      else s)"

definition iteration :: "session \<Rightarrow> sample \<Rightarrow> session" where
  "iteration s e =
     (let current_time = at_ms e;
          x = current_time_total_minutes current_time;
          s1 = take_initial s (spec e)
      in if datalen s1 < maxlen \<and> word_of_int ms_time < current_time - past_time s1
         then s1\<lparr>x2 := fadd (x2 s1) (fmul x x),
                 xy := accumulate x (spec e) (initial s1) (xy s1),
                 past_time := current_time,
                 datalen := datalen s1 + 1\<rparr>
         else s1)"

text \<open>
  \<^verbatim>\<open>for (int8_t i = 0; i < 80; i++) { delay(5); selectState = digitalRead(selectPin);
    if (selectState == 1 && historicSelectState == 0) return true;
    historicSelectState = selectState; } return false;\<close>
\<close>

function checkForButtonPress_loop :: "nat \<Rightarrow> int \<Rightarrow> (nat \<Rightarrow> int) \<Rightarrow> bool" where
  "checkForButtonPress_loop i historicSelectState levels =
     (if i < 80
      then (if levels i = 1 \<and> historicSelectState = 0 then True
            else checkForButtonPress_loop (i + 1) (levels i) levels)
      else False)"
  by pat_completeness auto
termination
  by (relation "measure (\<lambda>(i, h, levels). 80 - i)") auto

declare checkForButtonPress_loop.simps [simp del]

definition checkForButtonPress :: "int \<Rightarrow> (nat \<Rightarrow> int) \<Rightarrow> bool" where
  "checkForButtonPress historicSelectState levels =
     checkForButtonPress_loop 0 historicSelectState levels"

definition logData :: "32 word \<Rightarrow> real list \<Rightarrow> int \<Rightarrow> device \<Rightarrow> device" where
  "logData current_time specReadings uvReading d =
     emit ([PrintStr ''append LOG.CSV'', WriteByte 13, PrintULong current_time]
           @ concat (map (\<lambda>i. [PrintStr '','', PrintFloat (specReadings ! i)]) [0..<6])
           @ [PrintStr '','', PrintInt uvReading, WriteByte 26, WriteByte 26, WriteByte 26]) d"

definition startNewLog :: "device \<Rightarrow> device option" where
  "startNewLog d =
     (case sendSDCommand ''rm'' ''LOG.CSV'' CHR ''>'' d of
        None \<Rightarrow> None
      | Some d1 \<Rightarrow>
          (case sendSDCommand ''new'' ''LOG.CSV'' CHR ''>'' d1 of
             None \<Rightarrow> None
           | Some d2 \<Rightarrow>
               Some (emit [PrintStr ''append LOG.CSV'', WriteByte 13,
                           PrintStr ''time,red,orange,yellow,green,blue,violet,uv'',
                           WriteByte 26, WriteByte 26, WriteByte 26] d2)))"

text \<open>
  The loop of \<open>measuringMenu1\<close>. It leaves at the end of the first iteration where
  \<^verbatim>\<open>current_time_total_minutes >= 5 || checkForButtonPress(historicSelectState)\<close>
  holds. The result is \<open>None\<close> when the loop is still running after the last
  iteration the environment describes.
\<close>

fun measuring_loop ::
  "int \<Rightarrow> session \<Rightarrow> device \<Rightarrow> sample list \<Rightarrow> (session \<times> device \<times> sample list) option" where
  "measuring_loop historicSelectState s d [] = None"
| "measuring_loop historicSelectState s d (e # es) =
     (let d1 = logData (at_ms e) (spec e) (uv e) d;
          s1 = iteration s e
      in if fge (current_time_total_minutes (at_ms e)) (Fin 5)
            \<or> checkForButtonPress historicSelectState (pins e)
         then Some (s1, d1, es)
         else measuring_loop historicSelectState s1 d1 es)"

text \<open>\<^verbatim>\<open>for (int i = 0; i < 6; i++) slopes[i] = xy[i] / x2;\<close>\<close>

definition processSlopes :: "dbl list \<Rightarrow> dbl \<Rightarrow> dbl list" where
  "processSlopes acc sumsq = map (\<lambda>i. fdiv (acc ! i) sumsq) [0..<6]"

datatype TestResult = NO_LEAK | LEAK_DETECTED | RECOMMEND_FURTHER_TESTING

text \<open>The two placeholders of the sketch: fixed values, whatever the slopes are.\<close>

definition calculateConcentration :: "dbl list \<Rightarrow> dbl" where
  "calculateConcentration slopes = Fin 0"

definition calculateResult :: "dbl \<Rightarrow> TestResult" where
  "calculateResult concentration = NO_LEAK"

record outcome =
  slopes :: "dbl list"
  concentration :: dbl
  result :: TestResult
  final :: session

definition finish :: "session \<Rightarrow> outcome" where
  "finish s =
     (let sl = processSlopes (xy s) (x2 s);
          c = calculateConcentration sl
      in \<lparr>slopes = sl, concentration = c, result = calculateResult c, final = s\<rparr>)"

definition measuringMenu1 ::
  "int \<Rightarrow> sample list \<Rightarrow> device \<Rightarrow> (outcome \<times> device) option" where
  "measuringMenu1 historicSelectState evs d =
     (case startNewLog d of
        None \<Rightarrow> None
      | Some d1 \<Rightarrow>
          (case measuring_loop historicSelectState session_init d1 evs of
             None \<Rightarrow> None
           | Some (s, d2, rest) \<Rightarrow> Some (finish s, setHomeMenu d2)))"

section \<open>Configuration file: \<open>loadConfig\<close>, \<open>checkHeader\<close>, \<open>writeConfig\<close>\<close>

definition configHeader :: string where
  "configHeader = ''index,r,o,y,g,b,v,uv''"

text \<open>\<open>header[i]\<close> of a string literal: its characters, then the terminating NUL.\<close>

definition header_at :: "string \<Rightarrow> int \<Rightarrow> int" where
  "header_at header i =
     (if 0 \<le> i \<and> nat i < length header then of_char (header ! nat i) else 0)"

text \<open>
  \<^verbatim>\<open>for (int timeOut = 0 ; timeOut < 1000 ; timeOut++) {
    while ((c = (char) OpenLog.read()) > 0) {
      if (c == header[filePosition]) { if (filePosition == headerlen - 1) return true; }
      else return false;
      filePosition++; timeOut = 0; }
    delay(1); }
  return false;\<close>
  The cast to \<open>char\<close> makes a byte above 127 negative, so such a byte, a NUL and an
  empty line (\<open>-1\<close>) all end the inner loop and cost one unit of the time-out. The
  result is the verdict and the input left unread.
\<close>

function checkHeader_loop ::
  "string \<Rightarrow> int \<Rightarrow> int \<Rightarrow> int \<Rightarrow> int list \<Rightarrow> bool \<times> int list" where
  "checkHeader_loop header headerlen timeOut filePosition inp =
     (if timeOut < 1000
      then (case inp of
              [] \<Rightarrow> checkHeader_loop header headerlen (timeOut + 1) filePosition []
            | b # bs \<Rightarrow>
                if 0 < int8_t b
                then (if int8_t b = header_at header filePosition
                      then (if filePosition = headerlen - 1 then (True, bs)
                            else checkHeader_loop header headerlen 0 (filePosition + 1) bs)
                      else (False, bs))
                else checkHeader_loop header headerlen (timeOut + 1) filePosition bs)
      else (False, inp))"
  by pat_completeness auto
termination
  by (relation "measures [\<lambda>(h, n, t, f, inp). length inp, \<lambda>(h, n, t, f, inp). nat (1000 - t)]")
     auto

declare checkHeader_loop.simps [simp del]

definition checkHeader :: "string \<Rightarrow> int \<Rightarrow> device \<Rightarrow> (bool \<times> device) option" where
  "checkHeader header headerlen d =
     (case waitForChar (CHR 0x0D) d of
        None \<Rightarrow> None
      | Some d1 \<Rightarrow>
          (case waitForChar (CHR 0x0A) d1 of
             None \<Rightarrow> None
           | Some d2 \<Rightarrow>
               (case checkHeader_loop header headerlen 0 0 (sd_in d2) of
                  (ok, rest) \<Rightarrow> Some (ok, d2\<lparr>sd_in := rest\<rparr>))))"

definition writeFile :: "string \<Rightarrow> device \<Rightarrow> device option" where
  "writeFile filename d =
     (case sendSDCommand ''rm'' filename CHR ''>'' d of
        None \<Rightarrow> None
      | Some d1 \<Rightarrow>
          (case sendSDCommand ''new'' filename CHR ''>'' d1 of
             None \<Rightarrow> None
           | Some d2 \<Rightarrow> sendSDCommand ''write'' filename CHR ''<'' d2))"

text \<open>The header line and the data row that \<open>writeConfig\<close> prints for the globals.\<close>

definition config_image :: "device \<Rightarrow> sd_item list" where
  "config_image d =
     [PrintStr configHeader, WriteByte 13, PrintInt (index d)]
     @ concat (map (\<lambda>i. [PrintStr '','', PrintFloat (calibration d ! i)]) [0..<6])
     @ [PrintStr '','', PrintInt (uvCalibration d), WriteByte 13, WriteByte 13]"

definition writeConfig :: "device \<Rightarrow> device option" where
  "writeConfig d =
     (case writeFile ''config.csv'' d of
        None \<Rightarrow> None
      | Some d1 \<Rightarrow> waitForChar CHR ''>'' (emit (config_image d1) d1))"

text \<open>
  \<open>atoi\<close> and \<open>atof\<close> belong to the C library, not to the sketch: they are
  parameters of the functions that call them.
\<close>

definition updateGlobalConfig ::
  "(string \<Rightarrow> int) \<Rightarrow> (string \<Rightarrow> real) \<Rightarrow> string \<Rightarrow> int \<Rightarrow> device \<Rightarrow> device" where
  "updateGlobalConfig atoi atof ar config_index d =
     (if config_index = 0 then d\<lparr>index := atoi ar\<rparr>
      else if 0 < config_index \<and> config_index < 7
      then d\<lparr>calibration := (calibration d)[nat (config_index - 1) := atof ar]\<rparr>
      else if config_index = 7 then d\<lparr>uvCalibration := atoi ar\<rparr>
      else d)"

text \<open>
  \<^verbatim>\<open>while (1) { if (OpenLog.available()) { c = (char) OpenLog.read();
    if (c != '\n' && c != '\r') return c; } }\<close>
\<close>

fun waitForRealChar_loop :: "int list \<Rightarrow> (int \<times> int list) option" where
  "waitForRealChar_loop [] = None"
| "waitForRealChar_loop (b # bs) =
     (if b \<noteq> -1
      then (if int8_t b \<noteq> 10 \<and> int8_t b \<noteq> 13 then Some (int8_t b, bs)
            else waitForRealChar_loop bs)
      else waitForRealChar_loop bs)"

text \<open>The C string held by \<open>dataBuf\<close> once the terminating NUL is stored.\<close>

definition c_string :: "int list \<Rightarrow> string" where
  "c_string buf = map (\<lambda>c. char_of (c mod 256)) (takeWhile (\<lambda>c. c \<noteq> 0) buf)"

text \<open>
  The parsing loop of \<open>readConfigData\<close>. \<open>dataBuf\<close> holds the \<open>nData\<close> characters
  of the current field; the buffer has ten cells, and a store beyond them is undefined
  behaviour: \<open>None\<close>. The loop ends at the first carriage return or line feed, or
  when the line stays silent for 1000 polls.
\<close>

function readConfigData_loop ::
  "(string \<Rightarrow> int) \<Rightarrow> (string \<Rightarrow> real) \<Rightarrow> int \<Rightarrow> int \<Rightarrow> int list \<Rightarrow> int list \<Rightarrow> device
   \<Rightarrow> (int list \<times> device) option" where
  "readConfigData_loop atoi atof timeOut config_index dataBuf inp d =
     (if timeOut < 1000
      then (case inp of
              [] \<Rightarrow> readConfigData_loop atoi atof (timeOut + 1) config_index dataBuf [] d
            | b # bs \<Rightarrow>
                if 0 < int8_t b
                then (if int8_t b = of_char CHR '','' \<or> int8_t b = 13 \<or> int8_t b = 10
                      then (if length dataBuf < 10
                            then (if int8_t b = 13 \<or> int8_t b = 10
                                  then Some (bs, updateGlobalConfig atoi atof
                                                   (c_string dataBuf) config_index d)
                                  else readConfigData_loop atoi atof 0
                                         ((config_index + 1) mod 256) [] bs
                                         (updateGlobalConfig atoi atof
                                            (c_string dataBuf) config_index d))
                            else None)
                      else (if length dataBuf < 10
                            then readConfigData_loop atoi atof 0 config_index
                                   (dataBuf @ [int8_t b]) bs d
                            else None))
                else readConfigData_loop atoi atof (timeOut + 1) config_index dataBuf bs d)
      else Some (inp, d))"
  by pat_completeness auto
termination
  by (relation "measures [\<lambda>(a, f, t, c, buf, inp, d). length inp,
                          \<lambda>(a, f, t, c, buf, inp, d). nat (1000 - t)]") auto

declare readConfigData_loop.simps [simp del]

definition readConfigData ::
  "(string \<Rightarrow> int) \<Rightarrow> (string \<Rightarrow> real) \<Rightarrow> device \<Rightarrow> device option" where
  "readConfigData atoi atof d =
     (case waitForRealChar_loop (sd_in d) of
        None \<Rightarrow> None
      | Some (c, rest) \<Rightarrow>
          (case readConfigData_loop atoi atof 0 0 [c] rest d of
             None \<Rightarrow> None
           | Some (rest', d1) \<Rightarrow> waitForChar CHR ''>'' (d1\<lparr>sd_in := rest'\<rparr>)))"

definition loadConfig ::
  "(string \<Rightarrow> int) \<Rightarrow> (string \<Rightarrow> real) \<Rightarrow> device \<Rightarrow> device option" where
  "loadConfig atoi atof d =
     (case sendSDCommand ''read'' ''config.csv'' (CHR 0x0D) d of
        None \<Rightarrow> None
      | Some d1 \<Rightarrow>
          (case checkHeader configHeader 20 d1 of
             None \<Rightarrow> None
           | Some (ok, d2) \<Rightarrow> if ok then readConfigData atoi atof d2 else writeConfig d2))"

section \<open>Measuring session (advanced build): \<open>measuringMenu1\<close>\<close>

text \<open>The seven plotted channels: their arrays are globals, never reset.\<close>

record plots =
  uvG :: graph
  rG :: graph
  oG :: graph
  yG :: graph
  gG :: graph
  bG :: graph
  vG :: graph

definition plots_init :: plots where
  "plots_init = \<lparr>uvG = graph_init 95, rG = graph_init 46, oG = graph_init 47,
                  yG = graph_init 46, gG = graph_init 47, bG = graph_init 46,
                  vG = graph_init 47\<rparr>"

text \<open>\<open>%d\<close> of \<open>sprintf\<close>: the decimal digits, with a minus sign below zero.\<close>

function dec_nat :: "nat \<Rightarrow> string" where
  "dec_nat n =
     (if n < 10 then [char_of (48 + n)] else dec_nat (n div 10) @ [char_of (48 + n mod 10)])"
  by pat_completeness auto
termination
  by (relation "measure (\<lambda>n. n)") auto

declare dec_nat.simps [simp del]

definition dec_int :: "int \<Rightarrow> string" where
  "dec_int i = (if i < 0 then CHR ''-'' # dec_nat (nat (- i)) else dec_nat (nat i))"

text \<open>
  The acceptance test of the advanced build compares against the count of accepted
  points: \<^verbatim>\<open>datalen < maxlen && (current_time - (datalen * ms_time)) > ms_time\<close>.
  The product is taken in \<open>int\<close> without overflow here. The advanced build has no
  \<open>past_time\<close>; that field of the session keeps its initial value.
\<close>

definition iteration_adv :: "session \<Rightarrow> sample \<Rightarrow> session" where
  "iteration_adv s e =
     (let current_time = at_ms e;
          s1 = take_initial s (spec e)
      in if datalen s1 < maxlen
            \<and> word_of_int ms_time < current_time - word_of_int (datalen s1 * ms_time)
         then (let x = current_time_total_minutes current_time
               in s1\<lparr>x2 := fadd (x2 s1) (fmul x x),
                      xy := accumulate x (spec e) (initial s1) (xy s1),
                      datalen := datalen s1 + 1\<rparr>)
         else s1)"

text \<open>The seven calls of \<open>graphColor\<close> of one iteration, in the order of the sketch.\<close>

definition plot_all :: "sample \<Rightarrow> plots \<Rightarrow> plots option" where
  "plot_all e p =
     (case graphColor 94 25 (uvG p) (real_of_int (uv e)) of None \<Rightarrow> None | Some g0 \<Rightarrow>
      case graphColor 46 18 (rG p) (spec e ! 0) of None \<Rightarrow> None | Some g1 \<Rightarrow>
      case graphColor 47 18 (oG p) (spec e ! 1) of None \<Rightarrow> None | Some g2 \<Rightarrow>
      case graphColor 46 17 (yG p) (spec e ! 2) of None \<Rightarrow> None | Some g3 \<Rightarrow>
      case graphColor 47 17 (gG p) (spec e ! 3) of None \<Rightarrow> None | Some g4 \<Rightarrow>
      case graphColor 46 17 (bG p) (spec e ! 4) of None \<Rightarrow> None | Some g5 \<Rightarrow>
      case graphColor 47 17 (vG p) (spec e ! 5) of None \<Rightarrow> None | Some g6 \<Rightarrow>
        Some \<lparr>uvG = g0, rG = g1, oG = g2, yG = g3, gG = g4, bG = g5, vG = g6\<rparr>)"

definition logData_adv ::
  "string \<Rightarrow> 32 word \<Rightarrow> real list \<Rightarrow> int \<Rightarrow> device \<Rightarrow> device" where
  "logData_adv sampleName current_time specReadings uvReading d =
     emit ([PrintStr ''append '', PrintStr sampleName, WriteByte 13, PrintULong current_time]
           @ concat (map (\<lambda>i. [PrintStr '','', PrintFloat (specReadings ! i)]) [0..<6])
           @ [PrintStr '','', PrintInt uvReading, WriteByte 26, WriteByte 26, WriteByte 26]) d"

text \<open>
  \<^verbatim>\<open>int8_t current_time_minutes = (current_time / 1000) / 60;\<close>
\<close>

definition current_time_minutes :: "32 word \<Rightarrow> int" where
  "current_time_minutes current_time = int8_t (int (unat current_time div 1000 div 60))"

text \<open>
  The loop of the advanced \<open>measuringMenu1\<close>: it leaves at the end of the first
  iteration where \<open>current_time_minutes >= 60\<close> or the button check holds.
\<close>

fun measuring_loop_adv ::
  "string \<Rightarrow> int \<Rightarrow> session \<Rightarrow> device \<Rightarrow> plots \<Rightarrow> sample list
   \<Rightarrow> (session \<times> device \<times> plots \<times> sample list) option" where
  "measuring_loop_adv sampleName historicSelectState s d p [] = None"
| "measuring_loop_adv sampleName historicSelectState s d p (e # es) =
     (let s1 = iteration_adv s e
      in case plot_all e p of
           None \<Rightarrow> None
         | Some p1 \<Rightarrow>
             (let d1 = logData_adv sampleName (at_ms e) (spec e) (uv e) d
              in if 60 \<le> current_time_minutes (at_ms e) then Some (s1, d1, p1, es)
                 else if checkForButtonPress historicSelectState (pins e)
                 then Some (s1, d1, p1, es)
                 else measuring_loop_adv sampleName historicSelectState s1 d1 p1 es))"

text \<open>
  The start of the advanced session:
  \<^verbatim>\<open>sprintf(sampleName, "LOG%d.CSV", index++); writeConfig();
  sdCommand("rm", sampleName, '>'); sdCommand("new", sampleName, '>'); ...\<close>
  The global \<open>index\<close> is an \<open>int\<close>: \<open>index++\<close> at \<open>INT_MAX\<close> overflows, which is
  undefined behaviour and \<open>None\<close> here. The result is the log name and the device.
\<close>

definition start_session_adv :: "device \<Rightarrow> (string \<times> device) option" where
  "start_session_adv d =
     (if INT_MAX \<le> index d then None
      else
       (let sampleName = ''LOG'' @ dec_int (index d) @ ''.CSV'';
            d0 = d\<lparr>index := index d + 1\<rparr>
        in case writeConfig d0 of
             None \<Rightarrow> None
           | Some d1 \<Rightarrow>
               (case sendSDCommand ''rm'' sampleName CHR ''>'' d1 of
                  None \<Rightarrow> None
                | Some d2 \<Rightarrow>
                    (case sendSDCommand ''new'' sampleName CHR ''>'' d2 of
                       None \<Rightarrow> None
                     | Some d3 \<Rightarrow>
                         Some (sampleName,
                               emit [PrintStr ''append '', PrintStr sampleName, WriteByte 13,
                                     PrintStr ''time,red,orange,yellow,green,blue,violet,uv'',
                                     WriteByte 26, WriteByte 26, WriteByte 26] d3)))))"

definition measuringMenu1_adv ::
  "int \<Rightarrow> sample list \<Rightarrow> device \<Rightarrow> plots \<Rightarrow> (outcome \<times> device \<times> plots) option" where
  "measuringMenu1_adv historicSelectState evs d p =
     (case start_session_adv d of
        None \<Rightarrow> None
      | Some (sampleName, d1) \<Rightarrow>
          (case measuring_loop_adv sampleName historicSelectState session_init d1 p evs of
             None \<Rightarrow> None
           | Some (s, d2, p2, rest) \<Rightarrow>
               Some (finish s, setHomeMenu (emit [WriteByte 13] d2), p2)))"

section \<open>Concrete inputs used in the examples\<close>

text \<open>An iteration at \<open>t\<close> milliseconds that reads \<open>r\<close> on all six channels, 0 on
  the ultraviolet sensor, and the same level of the select pin at every poll.\<close>

definition steady :: "nat \<Rightarrow> real \<Rightarrow> int \<Rightarrow> sample" where
  "steady t r level =
     \<lparr>at_ms = of_nat t, spec = [r, r, r, r, r, r], uv = 0, pins = (\<lambda>k. level)\<rparr>"

text \<open>The bytes of a text, as the storage device sends them.\<close>

definition bytes :: "string \<Rightarrow> int list" where
  "bytes text = map of_char text"

text \<open>Scenario A: a first sample at 250 ms that reads 100, then samples at 1, 2 and 3
  minutes that read 110, 120 and 130; the select button is pressed during the last one.\<close>

definition scenario_A :: "sample list" where
  "scenario_A =
     [steady 250 100 0, steady 60000 110 0, steady 120000 120 0, steady 180000 130 1]"

text \<open>
  What the basic build sends to the storage device in a session: the commands of
  \<open>startNewLog\<close>, which replace \<open>LOG.CSV\<close> and write its header line, and one line
  of \<open>logData\<close> for every iteration.
\<close>

definition new_log_commands :: "sd_item list" where
  "new_log_commands =
     [PrintStr ''rm'', PrintStr '' '', PrintStr ''LOG.CSV'', WriteByte 13,
      PrintStr ''new'', PrintStr '' '', PrintStr ''LOG.CSV'', WriteByte 13,
      PrintStr ''append LOG.CSV'', WriteByte 13,
      PrintStr ''time,red,orange,yellow,green,blue,violet,uv'',
      WriteByte 26, WriteByte 26, WriteByte 26]"

definition log_line :: "sample \<Rightarrow> sd_item list" where
  "log_line e =
     [PrintStr ''append LOG.CSV'', WriteByte 13, PrintULong (at_ms e)]
     @ concat (map (\<lambda>i. [PrintStr '','', PrintFloat (spec e ! i)]) [0..<6])
     @ [PrintStr '','', PrintInt (uv e), WriteByte 26, WriteByte 26, WriteByte 26]"

text \<open>The three commands by which \<open>writeFile\<close> replaces the configuration file.\<close>

definition config_commands :: "sd_item list" where
  "config_commands =
     [PrintStr ''rm'', PrintStr '' '', PrintStr ''config.csv'', WriteByte 13,
      PrintStr ''new'', PrintStr '' '', PrintStr ''config.csv'', WriteByte 13,
      PrintStr ''write'', PrintStr '' '', PrintStr ''config.csv'', WriteByte 13]"

text \<open>
  The input the header check starts on: \<open>loadConfig\<close> first waits for the carriage
  return that confirms the read command, then \<open>checkHeader\<close> waits for a carriage
  return and a line feed.
\<close>

definition reply_body :: "int list \<Rightarrow> int list option" where
  "reply_body inp =
     (case waitForChar_loop 13 inp of
        None \<Rightarrow> None
      | Some i1 \<Rightarrow>
          (case waitForChar_loop 13 i1 of
             None \<Rightarrow> None
           | Some i2 \<Rightarrow> waitForChar_loop 10 i2))"

text \<open>The characters the parsing code sees in an input: the polls whose value, cast to
  \<open>char\<close>, is positive.\<close>

definition chars_of :: "int list \<Rightarrow> int list" where
  "chars_of inp = filter (\<lambda>c. 0 < c) (map int8_t inp)"

definition default_profile :: "device \<Rightarrow> bool" where
  "default_profile d \<longleftrightarrow>
     index d = 0 \<and> calibration d = [0, 0, 0, 0, 0, 0] \<and> uvCalibration d = 0"

text \<open>
  The C library's \<open>atoi\<close> and \<open>atof\<close> on what the configuration file holds: leading
  white space, an optional sign, decimal digits and, for \<open>atof\<close>, an optional fraction
  (exponents are not read). They stand for the library functions in the examples.
\<close>

definition is_digit :: "char \<Rightarrow> bool" where
  "is_digit c \<longleftrightarrow> (48::nat) \<le> of_char c \<and> (of_char c :: nat) \<le> 57"

definition is_space :: "char \<Rightarrow> bool" where
  "is_space c \<longleftrightarrow> (of_char c :: nat) = 32 \<or> (9 \<le> (of_char c :: nat) \<and> (of_char c :: nat) \<le> 13)"

definition digits_value :: "string \<Rightarrow> int" where
  "digits_value s = foldl (\<lambda>a c. 10 * a + (of_char c - 48)) 0 (takeWhile is_digit s)"

definition atoi_c :: "string \<Rightarrow> int" where
  "atoi_c s =
     (case dropWhile is_space s of
        [] \<Rightarrow> 0
      | c # cs \<Rightarrow>
          if c = CHR ''-'' then - digits_value cs
          else if c = CHR ''+'' then digits_value cs
          else digits_value (c # cs))"

definition fraction_value :: "string \<Rightarrow> real" where
  "fraction_value s =
     (case s of
        [] \<Rightarrow> 0
      | c # cs \<Rightarrow>
          if c = CHR ''.''
          then real_of_int (digits_value cs) / 10 ^ length (takeWhile is_digit cs)
          else 0)"

definition unsigned_value :: "string \<Rightarrow> real" where
  "unsigned_value s = real_of_int (digits_value s) + fraction_value (dropWhile is_digit s)"

definition atof_c :: "string \<Rightarrow> real" where
  "atof_c s =
     (case dropWhile is_space s of
        [] \<Rightarrow> 0
      | c # cs \<Rightarrow>
          if c = CHR ''-'' then - unsigned_value cs
          else if c = CHR ''+'' then unsigned_value cs
          else unsigned_value (c # cs))"

section \<open>Invariant of the regression sums\<close>

text \<open>
  What every iteration of the measuring loop keeps: the sums are untouched while no sample
  has been accepted, the initial readings are taken before the first acceptance, and the
  sum of a channel whose initial reading is zero is not finite once a sample is accepted.
\<close>

definition reg_inv :: "session \<Rightarrow> bool" where
  "reg_inv s \<longleftrightarrow>
     (datalen s = 0 \<longrightarrow> x2 s = Fin 0 \<and> xy s = [Fin 0, Fin 0, Fin 0, Fin 0, Fin 0, Fin 0]) \<and>
     0 \<le> datalen s \<and>
     (0 < datalen s \<longrightarrow> initialTaken s) \<and>
     (\<forall>i<6. 0 < datalen s \<and> initial s ! i = 0 \<longrightarrow> \<not> is_Fin (xy s ! i))"

section \<open>Properties of single-precision rounding\<close>

lemma round_even_of_int: "round_even (real_of_int n) = n"
  by (simp add: round_even_def)

lemma round_even_floor: "\<lfloor>y\<rfloor> \<le> round_even y \<and> round_even y \<le> \<lfloor>y\<rfloor> + 1"
  by (simp add: round_even_def Let_def)

lemma round_even_mono:
  assumes "y1 \<le> y2"
  shows "round_even y1 \<le> round_even y2"
proof (cases "\<lfloor>y1\<rfloor> = \<lfloor>y2\<rfloor>")
  case True
  with assms show ?thesis by (auto simp: round_even_def Let_def)
next
  case False
  moreover from assms have "\<lfloor>y1\<rfloor> \<le> \<lfloor>y2\<rfloor>" by (rule floor_mono)
  ultimately have "\<lfloor>y1\<rfloor> < \<lfloor>y2\<rfloor>" by simp
  with round_even_floor [of y1] round_even_floor [of y2] show ?thesis by linarith
qed

lemma round_even_le: "y \<le> real_of_int n \<Longrightarrow> round_even y \<le> n"
  using round_even_mono [of y "real_of_int n"] by (simp add: round_even_of_int)

lemma round_even_ge: "real_of_int n \<le> y \<Longrightarrow> n \<le> round_even y"
  using round_even_mono [of "real_of_int n" y] by (simp add: round_even_of_int)

lemma pow2_pos: "0 < pow2 e"
  by (simp add: pow2_def)

lemma pow2_add: "pow2 (a + b) = pow2 a * pow2 b"
  by (simp add: pow2_def powr_add)

lemma pow2_nat: "0 \<le> a \<Longrightarrow> pow2 a = real_of_int (2 ^ nat a)"
  by (simp add: pow2_def powr_real_of_int)

lemma pow2_le_iff: "0 < x \<Longrightarrow> pow2 E \<le> x \<longleftrightarrow> E \<le> \<lfloor>log 2 x\<rfloor>"
  by (simp add: pow2_def le_log_iff [symmetric] le_floor_iff)

lemma less_pow2_iff: "0 < x \<Longrightarrow> x < pow2 E \<longleftrightarrow> \<lfloor>log 2 x\<rfloor> < E"
  by (simp add: pow2_def log_less_iff [symmetric] floor_less_iff)

lemma single_pos:
  "0 < x \<Longrightarrow> g = max (\<lfloor>log 2 x\<rfloor> - 23) (- 149) \<Longrightarrow>
   single x = real_of_int (round_even (x / pow2 g)) * pow2 g"
  by (simp add: single_def Let_def)

text \<open>Between a power of two and a value on either side of it.\<close>

lemma scaled_le:
  assumes "g \<le> E" "x \<le> pow2 E"
  shows "real_of_int (round_even (x / pow2 g)) * pow2 g \<le> pow2 E"
proof -
  have e: "pow2 E = pow2 (E - g) * pow2 g" using pow2_add [of "E - g" g] by simp
  from assms(2) have "x / pow2 g \<le> pow2 E / pow2 g"
    by (simp add: divide_right_mono pow2_pos less_imp_le)
  also have "\<dots> = pow2 (E - g)" using pow2_pos [of g] by (simp add: e)
  also from assms(1) have "\<dots> = real_of_int (2 ^ nat (E - g))" by (intro pow2_nat) simp
  finally have "round_even (x / pow2 g) \<le> 2 ^ nat (E - g)" by (rule round_even_le)
  then have "real_of_int (round_even (x / pow2 g)) \<le> real_of_int (2 ^ nat (E - g))"
    by (simp only: of_int_le_iff)
  also from assms(1) have "\<dots> = pow2 (E - g)" by (intro pow2_nat [symmetric]) simp
  finally have "real_of_int (round_even (x / pow2 g)) * pow2 g \<le> pow2 (E - g) * pow2 g"
    by (intro mult_right_mono) (simp_all add: pow2_pos less_imp_le)
  with e show ?thesis by simp
qed

lemma scaled_ge:
  assumes "g \<le> E" "pow2 E \<le> x"
  shows "pow2 E \<le> real_of_int (round_even (x / pow2 g)) * pow2 g"
proof -
  have e: "pow2 E = pow2 (E - g) * pow2 g" using pow2_add [of "E - g" g] by simp
  from assms(1) have n: "pow2 (E - g) = real_of_int (2 ^ nat (E - g))"
    by (intro pow2_nat) simp
  have "real_of_int (2 ^ nat (E - g)) = pow2 E / pow2 g"
    using pow2_pos [of g] by (simp only: n [symmetric] e) simp
  also from assms(2) have "\<dots> \<le> x / pow2 g"
    by (simp add: divide_right_mono pow2_pos less_imp_le)
  finally have "2 ^ nat (E - g) \<le> round_even (x / pow2 g)" by (rule round_even_ge)
  then have "real_of_int (2 ^ nat (E - g)) \<le> real_of_int (round_even (x / pow2 g))"
    by (simp only: of_int_le_iff)
  then have "pow2 (E - g) \<le> real_of_int (round_even (x / pow2 g))"
    by (simp only: n)
  then have "pow2 (E - g) * pow2 g \<le> real_of_int (round_even (x / pow2 g)) * pow2 g"
    by (intro mult_right_mono) (simp_all add: pow2_pos less_imp_le)
  then show ?thesis by (simp only: e)
qed

lemma single_nonneg:
  assumes "0 \<le> x"
  shows "0 \<le> single x"
proof (cases "x = 0")
  case True
  then show ?thesis by (simp add: single_def)
next
  case False
  with assms have x: "0 < x" by simp
  define g where "g = max (\<lfloor>log 2 x\<rfloor> - 23) (- 149)"
  from x have "real_of_int 0 \<le> x / pow2 g" by (simp add: pow2_pos less_imp_le)
  then have "0 \<le> round_even (x / pow2 g)" by (rule round_even_ge)
  then have "0 \<le> real_of_int (round_even (x / pow2 g)) * pow2 g"
    by (simp add: pow2_pos less_imp_le)
  with single_pos [OF x g_def] show ?thesis by simp
qed

lemma single_mono:
  assumes "0 \<le> x" "x \<le> y"
  shows "single x \<le> single y"
proof (cases "x = 0")
  case True
  with assms single_nonneg [of y] show ?thesis by (simp add: single_def)
next
  case False
  with assms have x: "0 < x" and y: "0 < y" by simp_all
  define ex where "ex = \<lfloor>log 2 x\<rfloor>"
  define ey where "ey = \<lfloor>log 2 y\<rfloor>"
  define gx where "gx = max (ex - 23) (- 149)"
  define gy where "gy = max (ey - 23) (- 149)"
  have sx: "single x = real_of_int (round_even (x / pow2 gx)) * pow2 gx"
    using x by (intro single_pos) (simp_all add: gx_def ex_def)
  have sy: "single y = real_of_int (round_even (y / pow2 gy)) * pow2 gy"
    using y by (intro single_pos) (simp_all add: gy_def ey_def)
  from x assms have "log 2 x \<le> log 2 y" by simp
  then have fl: "ex \<le> ey" unfolding ex_def ey_def by (rule floor_mono)
  then have g: "gx \<le> gy" by (simp add: gx_def gy_def)
  show ?thesis
  proof (cases "gx = gy")
    case True
    from assms have "x / pow2 gy \<le> y / pow2 gy"
      by (simp add: divide_right_mono pow2_pos less_imp_le)
    then have "round_even (x / pow2 gy) \<le> round_even (y / pow2 gy)"
      by (rule round_even_mono)
    then have "real_of_int (round_even (x / pow2 gy)) * pow2 gy
        \<le> real_of_int (round_even (y / pow2 gy)) * pow2 gy"
      by (intro mult_right_mono) (simp_all add: pow2_pos less_imp_le)
    with sx sy True show ?thesis by simp
  next
    case False
    with g have lt: "gx < gy" by simp
    then have E: "gy \<le> ey" "gx \<le> ey" "ex < ey"
      unfolding gx_def gy_def by linarith+
    from y have "pow2 ey \<le> y" by (simp add: pow2_le_iff ey_def)
    with E(1) have "pow2 ey \<le> single y" unfolding sy by (rule scaled_ge)
    moreover from x E(3) have "x < pow2 ey" by (simp add: less_pow2_iff ex_def)
    then have "x \<le> pow2 ey" by simp
    with E(2) have "single x \<le> pow2 ey" unfolding sx by (rule scaled_le)
    ultimately show ?thesis by simp
  qed
qed

text \<open>A value with at most 24 significant bits above the smallest step is kept.\<close>

lemma single_dyadic:
  assumes "0 < k" "k < 2 ^ 24" "n \<le> 149"
  shows "single (real_of_int k / 2 ^ n) = real_of_int k / 2 ^ n"
proof -
  define x :: real where "x = real_of_int k / 2 ^ n"
  define g where "g = max (\<lfloor>log 2 x\<rfloor> - 23) (- 149)"
  from assms have x: "0 < x" by (simp add: x_def)
  have pn: "pow2 (int n) = 2 ^ n" by (simp add: pow2_nat)
  have xk: "real_of_int k = x * pow2 (int n)" by (simp add: x_def pn)
  from assms(2) have "real_of_int k < real_of_int (2 ^ 24)" by (simp only: of_int_less_iff)
  also have "\<dots> = pow2 24" by (simp add: pow2_nat)
  finally have "x * pow2 (int n) < pow2 (24 - int n) * pow2 (int n)"
    using pow2_add [of "24 - int n" "int n"] by (simp add: xk)
  then have "x < pow2 (24 - int n)" using pow2_pos [of "int n"] by simp
  with x have "\<lfloor>log 2 x\<rfloor> < 24 - int n" by (simp add: less_pow2_iff)
  with assms(3) have gn: "g + int n \<le> 0" by (simp add: g_def)
  have "x / pow2 g * (pow2 g * pow2 (int n)) = x * pow2 (int n)"
    using pow2_pos [of g] by simp
  then have "x / pow2 g * pow2 (g + int n) = real_of_int k" by (simp add: pow2_add xk)
  moreover have "pow2 (g + int n) * pow2 (- (g + int n)) = 1"
    using pow2_add [of "g + int n" "- (g + int n)"] by (simp add: pow2_def)
  ultimately have "x / pow2 g = real_of_int k * pow2 (- (g + int n))"
    by (metis mult.assoc mult.right_neutral)
  also from gn have "pow2 (- (g + int n)) = real_of_int (2 ^ nat (- (g + int n)))"
    by (intro pow2_nat) simp
  finally have q: "x / pow2 g = real_of_int (k * 2 ^ nat (- (g + int n)))" by simp
  have "round_even (x / pow2 g) = k * 2 ^ nat (- (g + int n))"
    unfolding q by (rule round_even_of_int)
  with single_pos [OF x g_def] have "single x = real_of_int (k * 2 ^ nat (- (g + int n))) * pow2 g"
    by simp
  also have "\<dots> = x / pow2 g * pow2 g" by (simp only: q)
  also have "\<dots> = x" using pow2_pos [of g] by simp
  finally show ?thesis by (simp add: x_def)
qed

lemma single_of_int:
  assumes "0 \<le> k" "k < 2 ^ 24"
  shows "single (real_of_int k) = real_of_int k"
proof (cases "k = 0")
  case True
  then show ?thesis by (simp add: single_def)
next
  case False
  with assms single_dyadic [of k 0] show ?thesis by simp
qed

text \<open>Evaluation of a value whose place among the powers of two is known.\<close>

lemma single_scaled:
  assumes "2 ^ 23 \<le> x * 2 ^ n" "x * 2 ^ n < 2 ^ 24" "n \<le> 149"
  shows "single x = real_of_int (round_even (x * 2 ^ n)) / 2 ^ n"
proof -
  have pn: "pow2 (int n) = 2 ^ n" by (simp add: pow2_nat)
  have inv: "pow2 (- int n) * pow2 (int n) = 1"
    using pow2_add [of "- int n" "int n"] by (simp add: pow2_def)
  have "(0::real) < 2 ^ 23" by simp
  with assms(1) have "0 < x * 2 ^ n" by linarith
  then have x: "0 < x" by (simp add: zero_less_mult_iff)
  have "pow2 23 = 2 ^ 23" "pow2 24 = 2 ^ 24" by (simp_all add: pow2_nat)
  with assms have b: "pow2 23 \<le> x * pow2 (int n)" "x * pow2 (int n) < pow2 24" by (simp_all add: pn)
  have "pow2 (23 - int n) * pow2 (int n) \<le> x * pow2 (int n)"
    using b(1) pow2_add [of "23 - int n" "int n"] by simp
  then have "pow2 (23 - int n) \<le> x" using pow2_pos [of "int n"] by simp
  with x have l: "23 - int n \<le> \<lfloor>log 2 x\<rfloor>" by (simp add: pow2_le_iff)
  have "x * pow2 (int n) < pow2 (24 - int n) * pow2 (int n)"
    using b(2) pow2_add [of "24 - int n" "int n"] by simp
  then have "x < pow2 (24 - int n)" using pow2_pos [of "int n"] by simp
  with x have u: "\<lfloor>log 2 x\<rfloor> < 24 - int n" by (simp add: less_pow2_iff)
  from l u assms(3) have g: "- int n = max (\<lfloor>log 2 x\<rfloor> - 23) (- 149)" by simp
  have d: "x / pow2 (- int n) = x * pow2 (int n)"
    using inv pow2_pos [of "- int n"] by (simp add: field_simps)
  have m: "pow2 (- int n) = 1 / pow2 (int n)"
    using inv pow2_pos [of "int n"] by (simp add: field_simps)
  from single_pos [OF x g] show ?thesis by (simp add: d m pn)
qed


lemma single_0: "single 0 = 0"
  by (simp add: single_def)

lemma single_1: "single 1 = 1"
  using single_of_int [of 1] by simp

lemma single_numeral: "(numeral k :: int) < 16777216 \<Longrightarrow> single (numeral k) = numeral k"
  using single_of_int [of "numeral k"] by simp

lemma single_on_grid: "on_grid (single x)"
proof (cases "x = 0")
  case True
  then have "single x = real_of_int 0 * pow2 (- 149)" by (simp add: single_def)
  then show ?thesis unfolding on_grid_def by blast
next
  case False
  define g where "g = max (\<lfloor>log 2 \<bar>x\<bar>\<rfloor> - 23) (- 149)"
  define r where "r = round_even (x / pow2 g)"
  have g: "0 \<le> g + 149" by (simp add: g_def)
  from False have "single x = real_of_int r * pow2 g" by (simp add: single_def Let_def g_def r_def)
  also have "pow2 g = pow2 (g + 149) * pow2 (- 149)" using pow2_add [of "g + 149" "- 149"] by simp
  also from g have "pow2 (g + 149) = real_of_int (2 ^ nat (g + 149))" by (rule pow2_nat)
  finally have "single x = real_of_int (r * 2 ^ nat (g + 149)) * pow2 (- 149)" by simp
  then show ?thesis unfolding on_grid_def by blast
qed

lemma smallest_step: "single (pow2 (- 149)) = pow2 (- 149)"
proof -
  have e: "pow2 (- 149) = real_of_int 1 / 2 ^ 149"
    unfolding pow2_def by (simp add: powr_minus_divide)
  show ?thesis unfolding e by (rule single_dyadic) simp_all
qed

text \<open>The difference of two distinct \<open>float\<close> values is never rounded to zero.\<close>

lemma single_diff_pos:
  assumes "on_grid a" "on_grid b" "b < a"
  shows "0 < single (a - b)"
proof -
  from assms obtain ja jb where a: "a = real_of_int ja * pow2 (- 149)"
    and b: "b = real_of_int jb * pow2 (- 149)"
    unfolding on_grid_def by blast
  from assms(3) have "real_of_int jb * pow2 (- 149) < real_of_int ja * pow2 (- 149)"
    by (simp add: a b)
  then have "real_of_int jb < real_of_int ja" using pow2_pos [of "- 149"] by simp
  then have "1 \<le> ja - jb" by simp
  then have "real_of_int 1 \<le> real_of_int (ja - jb)" by (simp only: of_int_le_iff)
  then have "1 * pow2 (- 149) \<le> real_of_int (ja - jb) * pow2 (- 149)"
    by (intro mult_right_mono) (simp_all add: pow2_pos less_imp_le)
  also have "\<dots> = a - b" by (simp add: a b algebra_simps)
  finally have "pow2 (- 149) \<le> a - b" by simp
  then have "single (pow2 (- 149)) \<le> single (a - b)"
    by (intro single_mono) (simp_all add: pow2_pos less_imp_le)
  with pow2_pos [of "- 149"] show ?thesis by (simp add: smallest_step)
qed

section \<open>Properties of the graph window\<close>

lemma shiftLoop_Some:
  "1 \<le> i \<Longrightarrow> n \<le> int (length ar) \<Longrightarrow>
   \<exists>ar'. shiftLoop i n ar = Some ar' \<and> length ar' = length ar \<and> set ar' \<subseteq> set ar"
proof (induction i n ar rule: shiftLoop.induct)
  case (1 i n ar)
  show ?case
  proof (cases "i < n")
    case False
    then show ?thesis by (simp add: shiftLoop.simps)
  next
    case True
    with "1.prems" have inb: "1 \<le> i \<and> i < int (length ar)" by simp
    let ?ar = "ar[nat (i - 1) := ar ! nat i]"
    from "1.IH" [OF True inb] "1.prems" obtain ar' where
      s: "shiftLoop (i + 1) n ?ar = Some ar'" and l: "length ar' = length ?ar"
      and ss: "set ar' \<subseteq> set ?ar"
      by auto
    from inb have "nat i < length ar" by linarith
    then have "ar ! nat i \<in> set ar" by (rule nth_mem)
    then have "set ?ar \<subseteq> set ar"
      by (meson insert_subset set_update_subset_insert subset_trans subset_refl)
    with s l ss True inb show ?thesis
      by (subst shiftLoop.simps) auto
  qed
qed


lemma int8_t_id: "-128 \<le> v \<Longrightarrow> v \<le> 127 \<Longrightarrow> int8_t v = v"
  by (simp add: int8_t_def)

lemma calculateGraphPosition_product:
  assumes "mn \<le> m" "m \<le> mx" "0 \<le> ht" "ht < 2 ^ 24"
  shows "0 \<le> single (single (single (m - mn) / single (mx - mn)) * real_of_int ht) \<and>
         single (single (single (m - mn) / single (mx - mn)) * real_of_int ht) \<le> real_of_int ht"
proof -
  define a where "a = single (m - mn)"
  define b where "b = single (mx - mn)"
  define q where "q = single (a / b)"
  from assms have a0: "0 \<le> a" unfolding a_def by (intro single_nonneg) simp
  from assms have ab: "a \<le> b" unfolding a_def b_def by (intro single_mono) simp_all
  have q: "0 \<le> q \<and> q \<le> 1"
  proof (cases "b = 0")
    case True
    then show ?thesis by (simp add: q_def single_0)
  next
    case False
    with a0 ab have b: "0 < b" by simp
    with a0 ab have r: "0 \<le> a / b" "a / b \<le> 1" by simp_all
    from r(1) have "0 \<le> q" unfolding q_def by (rule single_nonneg)
    moreover from r have "q \<le> single 1" unfolding q_def by (intro single_mono)
    ultimately show ?thesis by (simp add: single_1)
  qed
  from assms(3,4) have H: "single (real_of_int ht) = real_of_int ht" by (rule single_of_int)
  from q assms(3) have p0: "0 \<le> q * real_of_int ht" by simp
  from q assms(3) have "q * real_of_int ht \<le> 1 * real_of_int ht"
    by (intro mult_right_mono) simp_all
  then have p1: "q * real_of_int ht \<le> real_of_int ht" by simp
  from p0 have "0 \<le> single (q * real_of_int ht)" by (rule single_nonneg)
  moreover from p0 p1 have "single (q * real_of_int ht) \<le> single (real_of_int ht)"
    by (rule single_mono)
  ultimately show ?thesis by (simp add: H q_def a_def b_def)
qed

lemma calculateGraphPosition_floor:
  assumes "mn \<le> m" "m \<le> mx" "0 \<le> ht" "ht < 2 ^ 24"
  shows "calculateGraphPosition mn mx ht m =
         (if mn \<noteq> mx
          then \<lfloor>single (single (single (m - mn) / single (mx - mn)) * real_of_int ht)\<rfloor>
          else 0)"
proof -
  from assms(3,4) have H: "single (real_of_int ht) = real_of_int ht" by (rule single_of_int)
  from calculateGraphPosition_product [OF assms] show ?thesis
    by (simp add: calculateGraphPosition_def float_to_int_def H)
qed

lemma calculateGraphPosition_range:
  assumes "mn \<le> m" "m \<le> mx" "0 \<le> ht" "ht < 2 ^ 24"
  shows "0 \<le> calculateGraphPosition mn mx ht m \<and> calculateGraphPosition mn mx ht m \<le> ht"
proof -
  from calculateGraphPosition_product [OF assms] assms(3) show ?thesis
    unfolding calculateGraphPosition_floor [OF assms]
    by (simp add: floor_le_iff le_floor_iff)
qed

lemma graphColor_step:
  assumes w: "1 \<le> w" "w \<le> int (length (xAr g))" "w \<le> 127"
    and l: "0 \<le> xLen g" "xLen g \<le> w"
  shows "\<exists>g'. graphColor w h g m = Some g' \<and> xLen g' = min (xLen g + 1) w \<and>
              length (xAr g') = length (xAr g)"
proof (cases "xLen g < w")
  case True
  with w l have "int8_t (xLen g + 1) = xLen g + 1" by (intro int8_t_id) simp_all
  with True w l show ?thesis by (simp add: graphColor_def Let_def)
next
  case False
  with l have eq: "xLen g = w" by simp
  from w eq obtain ar' where s: "shiftLoop 1 (xLen g - 1) (xAr g) = Some ar'"
    and len: "length ar' = length (xAr g)"
    using shiftLoop_Some [of 1 "xLen g - 1" "xAr g"] by auto
  with w eq show ?thesis by (simp add: graphColor_def Let_def)
qed

lemma observe_all_len:
  assumes "1 \<le> w" "w \<le> int (length (xAr g))" "w \<le> 127" "0 \<le> xLen g" "xLen g \<le> w"
  shows "\<exists>g'. observe_all w h g ms = Some g' \<and> xLen g' = min (xLen g + int (length ms)) w \<and>
              length (xAr g') = length (xAr g)"
  using assms
proof (induction ms arbitrary: g)
  case Nil
  then show ?case by simp
next
  case (Cons m ms)
  from graphColor_step [OF Cons.prems, of h m] obtain g1 where
    g1: "graphColor w h g m = Some g1" "xLen g1 = min (xLen g + 1) w"
      "length (xAr g1) = length (xAr g)"
    by blast
  with Cons.prems have p: "1 \<le> w" "w \<le> int (length (xAr g1))" "w \<le> 127" "0 \<le> xLen g1" "xLen g1 \<le> w"
    by simp_all
  from Cons.IH [OF p] obtain g' where
    "observe_all w h g1 ms = Some g'" "xLen g' = min (xLen g1 + int (length ms)) w"
    "length (xAr g') = length (xAr g1)"
    by blast
  with g1 Cons.prems show ?case by (auto simp: min_def)
qed



text \<open>
  Claim C5. After any sequence of N calls of \<open>graphColor\<close> on a channel whose
  window width \<open>w\<close> fits its array (and the \<open>int8_t\<close> counter), every call
  succeeds, and the stored sequence has length min(N, w), never more than w.
\<close>

theorem graph_length_min:
  assumes "1 \<le> w" "w \<le> int cap" "w \<le> 127"
  shows "\<exists>g. observe_all w h (graph_init cap) ms = Some g \<and>
             length (stored g) = min (length ms) (nat w) \<and> length (stored g) \<le> nat w"
proof -
  have "\<exists>g'. observe_all w h (graph_init cap) ms = Some g' \<and>
      xLen g' = min (xLen (graph_init cap) + int (length ms)) w \<and>
      length (xAr g') = length (xAr (graph_init cap))"
    using assms by (intro observe_all_len) (simp_all add: graph_init_def)
  then obtain g where g: "observe_all w h (graph_init cap) ms = Some g"
    "xLen g = min (int (length ms)) w" "length (xAr g) = cap"
    by (auto simp: graph_init_def)
  with assms have "length (stored g) = min (length ms) (nat w)"
    by (simp add: stored_def min_def) linarith
  with g show ?thesis by simp
qed

theorem graph_length_min_witness:
  "\<exists>g. observe_all 3 18 (graph_init 3) [10, 20, 15, 5] = Some g \<and>
       length (stored g) = min (length [10, 20, 15, 5 :: real]) (nat 3) \<and>
       length (stored g) \<le> nat 3"
  by (rule graph_length_min) simp_all



lemma last_take_update:
  "n < length xs \<Longrightarrow> last (take (Suc n) (xs[n := r])) = r"
  by (simp add: take_Suc_conv_app_nth)

text \<open>
  The guard \<open>minX != maxX\<close> keeps the divisor from zero: once a call has updated the
  extrema of a channel whose extrema are \<open>float\<close> values, the rounded difference of
  two distinct extrema is positive.
\<close>

lemma graphColor_extrema:
  assumes "graphColor w h g v = Some g'"
  shows "xMin g' = (if single v < xMin g \<or> xMin g = -1 then single v else xMin g) \<and>
         xMax g' = (if single v > xMax g \<or> xMax g = -1 then single v else xMax g)"
  using assms by (auto simp: graphColor_def Let_def split: if_splits option.splits)

lemma graphColor_divisor_positive:
  assumes "graphColor w h g v = Some g'" "on_grid (xMin g)" "on_grid (xMax g)"
    "xMin g' \<noteq> xMax g'"
  shows "on_grid (xMin g') \<and> on_grid (xMax g') \<and> 0 < single (xMax g' - xMin g')"
proof -
  note e = graphColor_extrema [OF assms(1)]
  from e assms(2,3) have g: "on_grid (xMin g')" "on_grid (xMax g')"
    by (simp_all add: single_on_grid)
  from e have "xMin g' \<le> single v" "single v \<le> xMax g'" by (auto split: if_splits)
  with assms(4) have "xMin g' < xMax g'" by simp
  with g show ?thesis by (simp add: single_diff_pos)
qed

text \<open>
  Claim C6, amended. The position stored by a call of \<open>graphColor\<close> for the value
  \<open>v\<close> is the single-precision value of \<open>(v - min) / (max - min) * (h - 1)\<close>, each
  of the four operations rounded to single precision, then rounded down (truncated, not
  rounded to nearest) when the updated extrema differ; it is 0 when they are equal. The
  value and the extrema are taken of magnitude at most \<open>2 ^ 126\<close>, where no operation
  overflows.
\<close>

theorem graphColor_position_floor:
  assumes "0 \<le> xLen g" "xLen g \<le> w" "w \<le> 127" "1 \<le> h" "h \<le> 127"
    and "\<bar>v\<bar> \<le> 2 ^ 126" "\<bar>xMin g\<bar> \<le> 2 ^ 126" "\<bar>xMax g\<bar> \<le> 2 ^ 126"
    and s: "graphColor w h g v = Some g'"
  shows "last (stored g') =
           (if xMin g' \<noteq> xMax g'
            then \<lfloor>single (single (single (single v - xMin g') / single (xMax g' - xMin g'))
                           * real_of_int (h - 1))\<rfloor>
            else 0)"
proof -
  define m where "m = single v"
  define mx where "mx = (if m > xMax g \<or> xMax g = -1 then m else xMax g)"
  define mn where "mn = (if m < xMin g \<or> xMin g = -1 then m else xMin g)"
  define r where "r = int8_t (calculateGraphPosition mn mx (h - 1) m)"
  have b: "mn \<le> m" "m \<le> mx" by (auto simp: mn_def mx_def)
  with assms have c: "0 \<le> calculateGraphPosition mn mx (h - 1) m \<and>
      calculateGraphPosition mn mx (h - 1) m \<le> h - 1"
    by (intro calculateGraphPosition_range) simp_all
  with assms have "r = calculateGraphPosition mn mx (h - 1) m"
    unfolding r_def by (intro int8_t_id) simp_all
  also from b assms have "\<dots> =
      (if mn \<noteq> mx
       then \<lfloor>single (single (single (m - mn) / single (mx - mn)) * real_of_int (h - 1))\<rfloor>
       else 0)"
    by (intro calculateGraphPosition_floor) simp_all
  finally have r: "r =
      (if mn \<noteq> mx
       then \<lfloor>single (single (single (m - mn) / single (mx - mn)) * real_of_int (h - 1))\<rfloor>
       else 0)" .
  from s have ex: "xMin g' = mn" "xMax g' = mx"
    by (auto simp: graphColor_def Let_def mn_def mx_def m_def split: if_splits option.splits)
  have "last (stored g') = r"
  proof (cases "xLen g < w")
    case True
    with s assms have inb: "nat (xLen g) < length (xAr g)"
      and g': "xAr g' = (xAr g)[nat (xLen g) := r]" "xLen g' = int8_t (xLen g + 1)"
      by (auto simp: graphColor_def Let_def r_def mn_def mx_def m_def split: if_splits)
    from True assms have "int8_t (xLen g + 1) = xLen g + 1" by (intro int8_t_id) simp_all
    with g' assms have "nat (xLen g') = Suc (nat (xLen g))" by simp
    with g' inb show ?thesis by (simp only: stored_def last_take_update)
  next
    case False
    with assms have eq: "xLen g = w" by simp
    from s False obtain ar where inb: "0 \<le> w - 1" "w - 1 < int (length ar)"
      and g': "xAr g' = ar[nat (w - 1) := r]" "xLen g' = xLen g"
      by (auto simp: graphColor_def Let_def r_def mn_def mx_def m_def
          split: if_splits option.splits)
    from inb have n: "nat (w - 1) < length ar" by linarith
    from inb eq g' have "nat (xLen g') = Suc (nat (w - 1))" by simp
    with g' n show ?thesis by (simp only: stored_def last_take_update)
  qed
  with r ex show ?thesis by (simp add: m_def)
qed

lemma single_three_quarters: "single (3 / 4) = 3 / 4"
  using single_dyadic [of 3 2] by simp

lemma single_51_quarters: "single (51 / 4) = 51 / 4"
  using single_dyadic [of 51 2] by simp

lemma single_half: "single (1 / 2) = 1 / 2"
  using single_dyadic [of 1 1] by simp

lemma single_17_halves: "single (17 / 2) = 17 / 2"
  using single_dyadic [of 17 1] by simp

lemmas single_values = single_0 single_1 single_numeral single_three_quarters
  single_51_quarters single_half single_17_halves

theorem graphColor_position_floor_witness:
  "\<exists>g'. graphColor 3 18 \<lparr>xMin = 0, xMax = 4, xLen = 2, xAr = [0, 17, 0]\<rparr> 3 = Some g' \<and>
        last (stored g') = 12"
proof -
  let ?g = "\<lparr>xMin = 0, xMax = 4, xLen = 2, xAr = [0, 17, 0]\<rparr>"
  have s: "graphColor 3 18 ?g 3 = Some (?g\<lparr>xLen := 3, xAr := [0, 17, 12]\<rparr>)"
    by (simp add: graphColor_def Let_def calculateGraphPosition_def float_to_int_def int8_t_def
        single_values)
  have "last (stored (?g\<lparr>xLen := 3, xAr := [0, 17, 12]\<rparr>)) = 12"
    using graphColor_position_floor [OF _ _ _ _ _ _ _ _ s] by (simp add: single_values)
  with s show ?thesis by blast
qed

text \<open>
  Claim C6 as stated fails: with extrema 0 and 4 and height 18 the value 3 is placed at
  12, the truncation of 12.75 (no operation rounds here), while rounding gives 13.
\<close>

theorem position_round_counterexample:
  "calculateGraphPosition 0 4 (18 - 1) 3 = 12 \<and> round (((3::real) - 0) / (4 - 0) * (18 - 1)) = 13"
  by (simp add: calculateGraphPosition_def float_to_int_def round_def single_values)

text \<open>
  Where an operation does round, the position follows the rounded value: with extrema 0
  and 2251666 and the value 2119215 the exact product by 17 is below 16, the quotient is
  rounded up, the single-precision product is 16, and the position is 16.
\<close>

lemma position_rounding_example:
  "calculateGraphPosition 0 2251666 17 2119215 = 16 \<and>
   \<lfloor>((2119215::real) - 0) / (2251666 - 0) * 17\<rfloor> = 15"
proof -
  have "round_even (2119215 / 2251666 * 2 ^ 24) = 15790321"
    by (simp add: round_even_def Let_def)
  with single_scaled [of "2119215 / 2251666" 24]
  have q: "single (2119215 / 2251666) = 15790321 / 16777216" by simp
  have "round_even (15790321 / 16777216 * 17 * 2 ^ 19) = 8388608"
    by (simp add: round_even_def Let_def)
  with single_scaled [of "15790321 / 16777216 * 17" 19]
  have p: "single (15790321 / 16777216 * 17) = 16" by simp
  have "single (single (single (2119215 - 0) / single (2251666 - 0)) * single 17) = 16"
    using p by (simp add: single_values q)
  then show ?thesis
    by (simp add: calculateGraphPosition_def float_to_int_def)
qed

text \<open>
  What one call does to a full window of any width from 2 on: the cells below \<open>w - 2\<close>
  take the value of their right neighbour, the cell \<open>w - 2\<close> keeps its own value, and
  the value of the last cell is lost under the new position.
\<close>

lemma shiftLoop_nth:
  assumes "1 \<le> i" "n \<le> int (length ar)"
  shows "\<exists>ar'. shiftLoop i n ar = Some ar' \<and> length ar' = length ar \<and>
           (\<forall>k < length ar. ar' ! k =
              (if i - 1 \<le> int k \<and> int k < n - 1 then ar ! (k + 1) else ar ! k))"
  using assms
proof (induction i n ar rule: shiftLoop.induct)
  case (1 i n ar)
  show ?case
  proof (cases "i < n")
    case False
    then show ?thesis by (subst shiftLoop.simps) auto
  next
    case True
    with "1.prems" have inb: "1 \<le> i \<and> i < int (length ar)" by simp
    let ?ar = "ar[nat (i - 1) := ar ! nat i]"
    from "1.prems" have p: "1 \<le> i + 1" "n \<le> int (length ?ar)" by simp_all
    from "1.IH" [OF True inb p] obtain ar' where
      s: "shiftLoop (i + 1) n ?ar = Some ar'" and l: "length ar' = length ar" and
      n: "\<forall>k < length ar. ar' ! k =
            (if i \<le> int k \<and> int k < n - 1 then ?ar ! (k + 1) else ?ar ! k)"
      by auto
    have "ar' ! k = (if i - 1 \<le> int k \<and> int k < n - 1 then ar ! (k + 1) else ar ! k)"
      if k: "k < length ar" for k
    proof (cases "int k = i - 1")
      case True
      with inb have kk: "k = nat (i - 1)" by linarith
      from True inb have ni: "nat i = k + 1" by linarith
      from n k True have "ar' ! k = ?ar ! k" by simp
      also from kk k have "\<dots> = ar ! nat i" by simp
      finally show ?thesis using True \<open>i < n\<close> ni by simp
    next
      case False
      with inb have ne: "k \<noteq> nat (i - 1)" by linarith
      show ?thesis
      proof (cases "i \<le> int k \<and> int k < n - 1")
        case True
        with inb have "k + 1 \<noteq> nat (i - 1)" by linarith
        with n k True show ?thesis by simp
      next
        case f: False
        with n k ne False show ?thesis by auto
      qed
    qed
    with s l True inb show ?thesis by (subst shiftLoop.simps) simp
  qed
qed

lemma graphColor_full_window:
  assumes "xLen g = w" "2 \<le> w" "w \<le> int (length (xAr g))"
  shows "\<exists>g'. graphColor w h g m = Some g' \<and> xLen g' = w \<and>
           (\<forall>k. int k < w - 2 \<longrightarrow> xAr g' ! k = xAr g ! (k + 1)) \<and>
           xAr g' ! nat (w - 2) = xAr g ! nat (w - 2)"
proof -
  from assms obtain ar' where s: "shiftLoop 1 (xLen g - 1) (xAr g) = Some ar'"
    and l: "length ar' = length (xAr g)"
    and n: "\<forall>k < length (xAr g). ar' ! k =
              (if 1 - 1 \<le> int k \<and> int k < xLen g - 1 - 1 then xAr g ! (k + 1) else xAr g ! k)"
    using shiftLoop_nth [of 1 "xLen g - 1" "xAr g"] by auto
  from assms have w1: "nat (w - 1) < length ar'" using l by linarith
  have a: "ar'[nat (w - 1) := r] ! k = xAr g ! (k + 1)" if "int k < w - 2" for k r
  proof -
    from that assms have "k < length (xAr g)" "k \<noteq> nat (w - 1)" by linarith+
    with n that assms show ?thesis by simp
  qed
  have b: "ar'[nat (w - 1) := r] ! nat (w - 2) = xAr g ! nat (w - 2)" for r
  proof -
    from assms have "nat (w - 2) < length (xAr g)" "nat (w - 2) \<noteq> nat (w - 1)" by linarith+
    with n assms show ?thesis by simp
  qed
  from s l assms a b show ?thesis
    by (simp add: graphColor_def Let_def)
qed

text \<open>
  Claim C4, evaluated on the code. With width 3 and height 18 the observations
  10, 20, 15, 5 leave the positions 17, 17, 0 in the window: the shift loop stops one
  cell early, so the position 8 of the observation 15 is overwritten by the new entry and
  the position 17 of the observation 20 is kept twice. A window that dropped only the
  oldest entry would hold 17, 8, 0.
\<close>

theorem sliding_window_scenario_B:
  "map_option stored (observe_all 3 18 (graph_init 3) [10, 20, 15, 5]) = Some [17, 17, 0]"
  by (simp add: graphColor_def graph_init_def stored_def calculateGraphPosition_def
      float_to_int_def int8_t_def shiftLoop.simps Let_def single_values
      numeral_2_eq_2 numeral_3_eq_3)

section \<open>Properties of the measuring session (basic build)\<close>

lemma minutes_Fin: "current_time_total_minutes t = Fin (real (unat t) / 60)"
  by (simp add: current_time_total_minutes_def time_resolution_multiplier_def)

lemma normalized_zero_initial: "\<not> is_Fin (normalized r 0)"
  by (simp add: normalized_def fsub_def signed_inf_def)

lemma fmul_not_Fin: "\<not> is_Fin a \<Longrightarrow> \<not> is_Fin (fmul a (Fin v))"
  by (cases a) (simp_all add: signed_inf_def)

lemma fadd_not_Fin: "\<not> is_Fin b \<Longrightarrow> \<not> is_Fin (fadd a b)"
  by (cases a; cases b) simp_all

lemma fdiv_not_Fin: "\<not> is_Fin a \<Longrightarrow> \<not> is_Fin (fdiv a b)"
  by (cases a; cases b) (simp_all add: signed_inf_def)

lemma take_initial_simps:
  "initialTaken (take_initial s r)"
  "initial (take_initial s r) = (if initialTaken s then initial s else map (\<lambda>i. r ! i) [0..<6])"
  "x2 (take_initial s r) = x2 s" "xy (take_initial s r) = xy s"
  "datalen (take_initial s r) = datalen s" "past_time (take_initial s r) = past_time s"
  by (simp_all add: take_initial_def)

lemma iteration_initial:
  "initialTaken (iteration s e)"
  "initial (iteration s e) = (if initialTaken s then initial s else map (\<lambda>i. spec e ! i) [0..<6])"
  by (simp_all add: iteration_def Let_def take_initial_simps)

lemma accumulate_nth:
  "i < 6 \<Longrightarrow> accumulate x r ini acc ! i = fadd (acc ! i) (fmul (normalized (r ! i) (ini ! i)) x)"
  by (simp add: accumulate_def)

lemma length_accumulate: "length (accumulate x r ini acc) = 6"
  by (simp add: accumulate_def)

lemma reg_inv_init: "reg_inv session_init"
  by (simp add: reg_inv_def session_init_def)

lemma reg_inv_iteration:
  assumes "reg_inv s"
  shows "reg_inv (iteration s e)"
proof -
  let ?s1 = "take_initial s (spec e)"
  let ?x = "current_time_total_minutes (at_ms e)"
  show ?thesis
  proof (cases "datalen ?s1 < maxlen \<and> word_of_int ms_time < at_ms e - past_time ?s1")
    case False
    then have eq: "iteration s e = ?s1" by (auto simp add: iteration_def Let_def)
    from assms show ?thesis
      unfolding eq reg_inv_def by (auto simp: take_initial_simps)
  next
    case True
    then have eq: "iteration s e = ?s1\<lparr>x2 := fadd (x2 ?s1) (fmul ?x ?x),
        xy := accumulate ?x (spec e) (initial ?s1) (xy ?s1),
        past_time := at_ms e, datalen := datalen ?s1 + 1\<rparr>"
      by (simp add: iteration_def Let_def)
    have nf: "\<not> is_Fin (accumulate ?x (spec e) (initial ?s1) (xy ?s1) ! i)"
      if "i < 6" "initial ?s1 ! i = 0" for i
    proof -
      have "\<not> is_Fin (fmul (normalized (spec e ! i) 0) ?x)"
        unfolding minutes_Fin by (intro fmul_not_Fin normalized_zero_initial)
      then show ?thesis using that by (simp add: accumulate_nth fadd_not_Fin)
    qed
    from assms have "0 \<le> datalen s" by (simp add: reg_inv_def)
    with nf show ?thesis
      unfolding eq reg_inv_def by (simp add: take_initial_simps)
  qed
qed

lemma measuring_loop_inv:
  assumes "reg_inv s" "measuring_loop h s d evs = Some (s', d', rest)"
  shows "reg_inv s'"
  using assms
proof (induction evs arbitrary: s d)
  case Nil
  then show ?case by simp
next
  case (Cons e es)
  from Cons.prems(1) have i: "reg_inv (iteration s e)" by (rule reg_inv_iteration)
  show ?case
  proof (cases "fge (current_time_total_minutes (at_ms e)) (Fin 5) \<or> checkForButtonPress h (pins e)")
    case True
    with Cons.prems(2) have "s' = iteration s e" by (auto simp: Let_def)
    with i show ?thesis by simp
  next
    case False
    with Cons.prems(2) have
      "measuring_loop h (iteration s e) (logData (at_ms e) (spec e) (uv e) d) es = Some (s', d', rest)"
      by (simp add: Let_def)
    from Cons.IH [OF i this] show ?thesis .
  qed
qed

lemma measuring_loop_initial:
  assumes "measuring_loop h s d evs = Some (s', d', rest)" "initialTaken s"
  shows "initial s' = initial s \<and> initialTaken s'"
  using assms
proof (induction evs arbitrary: s d)
  case Nil
  then show ?case by simp
next
  case (Cons e es)
  have i: "initialTaken (iteration s e)" "initial (iteration s e) = initial s"
    using Cons.prems(2) by (simp_all add: iteration_initial)
  show ?case
  proof (cases "fge (current_time_total_minutes (at_ms e)) (Fin 5) \<or> checkForButtonPress h (pins e)")
    case True
    with Cons.prems(1) have "s' = iteration s e" by (auto simp: Let_def)
    with i show ?thesis by simp
  next
    case False
    with Cons.prems(1) have
      "measuring_loop h (iteration s e) (logData (at_ms e) (spec e) (uv e) d) es = Some (s', d', rest)"
      by (simp add: Let_def)
    from Cons.IH [OF this i(1)] i(2) show ?thesis by simp
  qed
qed

lemma processSlopes_nth: "i < 6 \<Longrightarrow> processSlopes acc q ! i = fdiv (acc ! i) q"
  by (simp add: processSlopes_def)

lemma upt_6: "[0..<6] = [0, 1, 2, 3, 4, 5]"
  by code_simp

lemma processSlopes_zero:
  "processSlopes [Fin 0, Fin 0, Fin 0, Fin 0, Fin 0, Fin 0] (Fin 0) = [NaN, NaN, NaN, NaN, NaN, NaN]"
  by (simp add: processSlopes_def upt_6)

lemma no_press: "checkForButtonPress_loop i h (\<lambda>k. 0) = False"
proof (induction "80 - i" arbitrary: i h)
  case 0
  then show ?case by (subst checkForButtonPress_loop.simps) simp
next
  case (Suc n)
  then show ?case by (subst checkForButtonPress_loop.simps) simp
qed

lemmas run_defs = measuringMenu1_def startNewLog_def sendSDCommand_def waitForChar_def emit_def
  boot_def steady_def iteration_def take_initial_def session_init_def logData_def
  current_time_total_minutes_def time_resolution_multiplier_def maxlen_def ms_time_def
  accumulate_def normalized_def signal_resolution_multiplier_def fsub_def signed_inf_def
  finish_def processSlopes_def calculateConcentration_def calculateResult_def setHomeMenu_def
  checkForButtonPress_def no_press upt_6 Let_def

lemma measuringMenu1_Some:
  assumes "measuringMenu1 h evs d = Some (r, d')"
  obtains d1 s d2 rest where "startNewLog d = Some d1"
    "measuring_loop h session_init d1 evs = Some (s, d2, rest)" "r = finish s"
    "d' = setHomeMenu d2"
  using assms by (auto simp: measuringMenu1_def split: option.splits)

text \<open>
  The exit test of the basic build holds from 300 milliseconds on, so the loop leaves at
  the end of the first iteration that falls at or after 300 ms, whatever the button does.
\<close>

lemma minutes_ge_5: "fge (current_time_total_minutes t) (Fin 5) \<longleftrightarrow> 300 \<le> unat t"
proof -
  have "(5 \<le> real n / 60) = (300 \<le> n)" for n :: nat
    by (simp add: pos_le_divide_eq)
  then show ?thesis
    unfolding minutes_Fin by (simp only: fge.simps)
qed

lemma measuring_loop_exit:
  assumes "300 \<le> unat (at_ms e)"
  shows "measuring_loop h s d (e # es) =
           Some (iteration s e, logData (at_ms e) (spec e) (uv e) d, es)"
  using assms by (simp add: minutes_ge_5 Let_def)

text \<open>
  Claim C2, evaluated on the code. The exit test compares the elapsed time in thousandths
  of a minute with 5: at 299 ms it is false, at 300 ms it is true, and a session whose
  first iteration falls at 300 ms leaves the loop there, with no press of the button.
\<close>

theorem measuring_loop_leaves_at_300_ms:
  "\<not> fge (current_time_total_minutes 299) (Fin 5) \<and>
   fge (current_time_total_minutes 300) (Fin 5) \<and>
   measuring_loop 0 session_init (boot []) [steady 300 100 0, steady 1000 100 0] =
     Some (iteration session_init (steady 300 100 0),
           logData 300 [100, 100, 100, 100, 100, 100] 0 (boot []),
           [steady 1000 100 0])"
  by (simp add: current_time_total_minutes_def time_resolution_multiplier_def steady_def)

text \<open>
  Claim C7 as stated fails. In a session whose first sample, at 250 ms, reads 100 and is
  not accepted, and whose second sample, at 6500 ms, reads 110 and is the first accepted
  one, the initial readings are those of the first sample.
\<close>

theorem initial_counterexample:
  "datalen (iteration session_init (steady 250 100 0)) = 0 \<and>
   datalen (iteration (iteration session_init (steady 250 100 0)) (steady 6500 110 0)) = 1 \<and>
   map_option (initial \<circ> final \<circ> fst)
     (measuringMenu1 0 [steady 250 100 0, steady 6500 110 0] (boot [62, 62])) =
     Some [100, 100, 100, 100, 100, 100]"
  by (simp add: run_defs)


section \<open>Properties of the serial line and of the configuration file\<close>

lemma waitForChar_Some:
  assumes "waitForChar c d = Some d'"
  shows "\<exists>rest. d' = d\<lparr>sd_in := rest\<rparr>"
  using assms by (auto simp: waitForChar_def split: option.splits)

lemma sendSDCommand_Some:
  assumes "sendSDCommand c f k d = Some d'"
  shows "\<exists>rest. d' = d\<lparr>sd_in := rest,
           sd_out := sd_out d @ [PrintStr c, PrintStr '' '', PrintStr f, WriteByte 13]\<rparr>"
proof -
  from assms obtain rest where
    "d' = (emit [PrintStr c, PrintStr '' '', PrintStr f, WriteByte 13] d)\<lparr>sd_in := rest\<rparr>"
    unfolding sendSDCommand_def by (blast dest: waitForChar_Some)
  then show ?thesis by (intro exI [of _ rest]) (simp add: emit_def)
qed

lemma config_image_cong:
  "index d' = index d \<Longrightarrow> calibration d' = calibration d \<Longrightarrow> uvCalibration d' = uvCalibration d
   \<Longrightarrow> config_image d' = config_image d"
  by (simp add: config_image_def)

lemma writeConfig_Some:
  assumes "writeConfig d = Some d'"
  shows "\<exists>rest. d' = d\<lparr>sd_in := rest,
           sd_out := sd_out d @ config_commands @ config_image d\<rparr>"
proof -
  from assms obtain d1 d2 d3 where
    1: "sendSDCommand ''rm'' ''config.csv'' CHR ''>'' d = Some d1" and
    2: "sendSDCommand ''new'' ''config.csv'' CHR ''>'' d1 = Some d2" and
    3: "sendSDCommand ''write'' ''config.csv'' CHR ''<'' d2 = Some d3" and
    4: "waitForChar CHR ''>'' (emit (config_image d3) d3) = Some d'"
    by (auto simp: writeConfig_def writeFile_def split: option.splits)
  from sendSDCommand_Some [OF 1] obtain r1 where
    d1: "d1 = d\<lparr>sd_in := r1,
           sd_out := sd_out d @ [PrintStr ''rm'', PrintStr '' '', PrintStr ''config.csv'', WriteByte 13]\<rparr>"
    by blast
  from sendSDCommand_Some [OF 2] obtain r2 where
    d2: "d2 = d1\<lparr>sd_in := r2,
           sd_out := sd_out d1 @ [PrintStr ''new'', PrintStr '' '', PrintStr ''config.csv'', WriteByte 13]\<rparr>"
    by blast
  from sendSDCommand_Some [OF 3] obtain r3 where
    d3: "d3 = d2\<lparr>sd_in := r3,
           sd_out := sd_out d2 @ [PrintStr ''write'', PrintStr '' '', PrintStr ''config.csv'', WriteByte 13]\<rparr>"
    by blast
  from waitForChar_Some [OF 4] obtain r4 where
    d4: "d' = (emit (config_image d3) d3)\<lparr>sd_in := r4\<rparr>"
    by blast
  have "config_image d3 = config_image d" by (simp add: d3 d2 d1 config_image_def)
  with d4 show ?thesis
    by (intro exI [of _ r4]) (simp add: d3 d2 d1 emit_def config_commands_def)
qed

section \<open>Properties of the measuring session (both builds)\<close>

lemma logData_line:
  "logData (at_ms e) (spec e) (uv e) d = d\<lparr>sd_out := sd_out d @ log_line e\<rparr>"
  by (simp add: logData_def emit_def log_line_def)

text \<open>The basic loop sends one log line for each iteration it runs, and nothing else.\<close>

lemma measuring_loop_output:
  assumes "measuring_loop h s d evs = Some (s', d', rest)"
  shows "\<exists>n. 0 < n \<and> n \<le> length evs \<and>
           d' = d\<lparr>sd_out := sd_out d @ concat (map log_line (take n evs))\<rparr>"
  using assms
proof (induction evs arbitrary: s d)
  case Nil
  then show ?case by simp
next
  case (Cons e es)
  let ?d1 = "logData (at_ms e) (spec e) (uv e) d"
  note d1 = logData_line [of e d]
  show ?case
  proof (cases "fge (current_time_total_minutes (at_ms e)) (Fin 5) \<or> checkForButtonPress h (pins e)")
    case True
    with Cons.prems have "d' = ?d1" by (auto simp: Let_def)
    with d1 have "d' = d\<lparr>sd_out := sd_out d @ concat (map log_line (take 1 (e # es)))\<rparr>"
      by simp
    then show ?thesis by (intro exI [of _ 1]) simp
  next
    case False
    with Cons.prems have "measuring_loop h (iteration s e) ?d1 es = Some (s', d', rest)"
      by (simp add: Let_def)
    from Cons.IH [OF this] obtain n where n: "0 < n" "n \<le> length es"
      and o: "d' = ?d1\<lparr>sd_out := sd_out ?d1 @ concat (map log_line (take n es))\<rparr>"
      by blast
    from o have "d' = d\<lparr>sd_out := sd_out d @ concat (map log_line (take (Suc n) (e # es)))\<rparr>"
      unfolding d1 by simp
    with n show ?thesis by (intro exI [of _ "Suc n"]) simp
  qed
qed

lemma startNewLog_Some:
  assumes "startNewLog d = Some d'"
  shows "\<exists>rest. d' = d\<lparr>sd_in := rest, sd_out := sd_out d @ new_log_commands\<rparr>"
proof -
  from assms obtain d1 d2 where
    1: "sendSDCommand ''rm'' ''LOG.CSV'' CHR ''>'' d = Some d1" and
    2: "sendSDCommand ''new'' ''LOG.CSV'' CHR ''>'' d1 = Some d2" and
    3: "d' = emit [PrintStr ''append LOG.CSV'', WriteByte 13,
                   PrintStr ''time,red,orange,yellow,green,blue,violet,uv'',
                   WriteByte 26, WriteByte 26, WriteByte 26] d2"
    by (auto simp: startNewLog_def split: option.splits)
  from sendSDCommand_Some [OF 1] obtain r1 where
    d1: "d1 = d\<lparr>sd_in := r1,
           sd_out := sd_out d @ [PrintStr ''rm'', PrintStr '' '', PrintStr ''LOG.CSV'', WriteByte 13]\<rparr>"
    by blast
  from sendSDCommand_Some [OF 2] obtain r2 where
    d2: "d2 = d1\<lparr>sd_in := r2,
           sd_out := sd_out d1 @ [PrintStr ''new'', PrintStr '' '', PrintStr ''LOG.CSV'', WriteByte 13]\<rparr>"
    by blast
  have "d' = d\<lparr>sd_in := r2, sd_out := sd_out d @ new_log_commands\<rparr>"
    by (simp add: 3 d2 d1 emit_def new_log_commands_def)
  then show ?thesis by blast
qed

text \<open>
  A session of the basic build changes neither the index nor the calibration, and what it
  sends is exactly the commands on \<open>LOG.CSV\<close> followed by the log lines.
\<close>

lemma measuringMenu1_device:
  assumes "measuringMenu1 h evs d = Some (r, d')"
  shows "index d' = index d \<and> calibration d' = calibration d \<and>
         uvCalibration d' = uvCalibration d \<and>
         (\<exists>n. 0 < n \<and> n \<le> length evs \<and>
              sd_out d' = sd_out d @ new_log_commands @ concat (map log_line (take n evs)))"
proof -
  from assms obtain d1 s d2 rest where
    a: "startNewLog d = Some d1" and
    l: "measuring_loop h session_init d1 evs = Some (s, d2, rest)" and
    d': "d' = setHomeMenu d2"
    by (rule measuringMenu1_Some)
  from startNewLog_Some [OF a] obtain r1 where
    d1: "d1 = d\<lparr>sd_in := r1, sd_out := sd_out d @ new_log_commands\<rparr>"
    by blast
  from measuring_loop_output [OF l] obtain n where n: "0 < n" "n \<le> length evs" and
    d2: "d2 = d1\<lparr>sd_out := sd_out d1 @ concat (map log_line (take n evs))\<rparr>"
    by blast
  have "sd_out d' = sd_out d @ new_log_commands @ concat (map log_line (take n evs))"
    by (simp add: d' d2 d1 setHomeMenu_def)
  with n have "\<exists>n. 0 < n \<and> n \<le> length evs \<and>
      sd_out d' = sd_out d @ new_log_commands @ concat (map log_line (take n evs))"
    by blast
  then show ?thesis by (simp add: d' d2 d1 setHomeMenu_def)
qed

lemma measuring_loop_adv_output:
  assumes "measuring_loop_adv nm h s d p evs = Some (s', d', p', rest)"
  shows "\<exists>out. d' = d\<lparr>sd_out := sd_out d @ out\<rparr>"
  using assms
proof (induction evs arbitrary: s d p)
  case Nil
  then show ?case by simp
next
  case (Cons e es)
  let ?d1 = "logData_adv nm (at_ms e) (spec e) (uv e) d"
  obtain items where d1: "?d1 = d\<lparr>sd_out := sd_out d @ items\<rparr>"
    by (simp add: logData_adv_def emit_def)
  from Cons.prems obtain p1 where p1: "plot_all e p = Some p1"
    by (auto simp: Let_def split: option.splits)
  show ?case
  proof (cases "60 \<le> current_time_minutes (at_ms e) \<or> checkForButtonPress h (pins e)")
    case True
    with Cons.prems p1 have "d' = ?d1" by (auto simp: Let_def split: if_splits)
    with d1 show ?thesis by blast
  next
    case False
    with Cons.prems p1 have
      "measuring_loop_adv nm h (iteration_adv s e) ?d1 p1 es = Some (s', d', p', rest)"
      by (simp add: Let_def)
    from Cons.IH [OF this] obtain out where "d' = ?d1\<lparr>sd_out := sd_out ?d1 @ out\<rparr>"
      by blast
    then have "d' = d\<lparr>sd_out := sd_out d @ (items @ out)\<rparr>"
      unfolding d1 by simp
    then show ?thesis by blast
  qed
qed

lemma measuringMenu1_adv_Some:
  assumes "measuringMenu1_adv h evs d p = Some (r, d', p')"
  obtains nm d1 s d2 rest where "start_session_adv d = Some (nm, d1)"
    "measuring_loop_adv nm h session_init d1 p evs = Some (s, d2, p', rest)" "r = finish s"
    "d' = setHomeMenu (emit [WriteByte 13] d2)"
  using assms by (auto simp: measuringMenu1_adv_def split: option.splits)

lemma start_session_adv_Some:
  assumes "start_session_adv d = Some (nm, d')"
  shows "index d < INT_MAX \<and>
         (\<exists>rest out. d' = d\<lparr>index := index d + 1, sd_in := rest,
            sd_out := sd_out d @ config_commands @ config_image (d\<lparr>index := index d + 1\<rparr>) @ out\<rparr>)"
proof -
  let ?d0 = "d\<lparr>index := index d + 1\<rparr>"
  from assms have lt: "index d < INT_MAX"
    by (auto simp: start_session_adv_def split: if_splits)
  with assms obtain d1 d2 d3 where
    1: "writeConfig ?d0 = Some d1" and
    2: "sendSDCommand ''rm'' nm CHR ''>'' d1 = Some d2" and
    3: "sendSDCommand ''new'' nm CHR ''>'' d2 = Some d3" and
    4: "d' = emit [PrintStr ''append '', PrintStr nm, WriteByte 13,
                   PrintStr ''time,red,orange,yellow,green,blue,violet,uv'',
                   WriteByte 26, WriteByte 26, WriteByte 26] d3"
    by (auto simp: start_session_adv_def Let_def split: option.splits)
  from writeConfig_Some [OF 1] obtain r1 where
    d1: "d1 = ?d0\<lparr>sd_in := r1, sd_out := sd_out ?d0 @ config_commands @ config_image ?d0\<rparr>"
    by blast
  from sendSDCommand_Some [OF 2] obtain r2 where
    d2: "d2 = d1\<lparr>sd_in := r2,
           sd_out := sd_out d1 @ [PrintStr ''rm'', PrintStr '' '', PrintStr nm, WriteByte 13]\<rparr>"
    by blast
  from sendSDCommand_Some [OF 3] obtain r3 where
    d3: "d3 = d2\<lparr>sd_in := r3,
           sd_out := sd_out d2 @ [PrintStr ''new'', PrintStr '' '', PrintStr nm, WriteByte 13]\<rparr>"
    by blast
  let ?out = "[PrintStr ''rm'', PrintStr '' '', PrintStr nm, WriteByte 13,
      PrintStr ''new'', PrintStr '' '', PrintStr nm, WriteByte 13,
      PrintStr ''append '', PrintStr nm, WriteByte 13,
      PrintStr ''time,red,orange,yellow,green,blue,violet,uv'',
      WriteByte 26, WriteByte 26, WriteByte 26]"
  have "d' = d\<lparr>index := index d + 1, sd_in := r3,
      sd_out := sd_out d @ config_commands @ config_image ?d0 @ ?out\<rparr>"
    by (simp add: 4 d3 d2 d1 emit_def)
  with lt show ?thesis by blast
qed

text \<open>
  A session of the advanced build started with the index at \<open>INT_MAX\<close> has no defined
  result; every other session increments the index, keeps the calibration, and first
  sends the commands and the contents that replace the configuration file.
\<close>

lemma measuringMenu1_adv_overflow:
  "INT_MAX \<le> index d \<Longrightarrow> measuringMenu1_adv h evs d p = None"
  by (simp add: measuringMenu1_adv_def start_session_adv_def)

lemma measuringMenu1_adv_device:
  assumes "measuringMenu1_adv h evs d p = Some (r, d', p')"
  shows "index d < INT_MAX \<and> index d' = index d + 1 \<and>
         calibration d' = calibration d \<and> uvCalibration d' = uvCalibration d \<and>
         (\<exists>out. sd_out d' = sd_out d @ config_commands
                   @ config_image (d\<lparr>index := index d + 1\<rparr>) @ out)"
proof -
  from assms obtain nm d1 s d2 rest where
    a: "start_session_adv d = Some (nm, d1)" and
    l: "measuring_loop_adv nm h session_init d1 p evs = Some (s, d2, p', rest)" and
    d': "d' = setHomeMenu (emit [WriteByte 13] d2)"
    by (rule measuringMenu1_adv_Some)
  from start_session_adv_Some [OF a] obtain r1 o1 where lt: "index d < INT_MAX" and
    d1: "d1 = d\<lparr>index := index d + 1, sd_in := r1,
           sd_out := sd_out d @ config_commands @ config_image (d\<lparr>index := index d + 1\<rparr>) @ o1\<rparr>"
    by blast
  from measuring_loop_adv_output [OF l] obtain o2 where
    d2: "d2 = d1\<lparr>sd_out := sd_out d1 @ o2\<rparr>"
    by blast
  have "sd_out d' = sd_out d @ config_commands @ config_image (d\<lparr>index := index d + 1\<rparr>)
      @ (o1 @ o2 @ [WriteByte 13])"
    by (simp add: d' d2 d1 setHomeMenu_def emit_def)
  then have "\<exists>out. sd_out d' = sd_out d @ config_commands
      @ config_image (d\<lparr>index := index d + 1\<rparr>) @ out"
    by blast
  with lt show ?thesis by (simp add: d' d2 d1 setHomeMenu_def emit_def)
qed

text \<open>The advanced loop keeps the invariant of the regression sums.\<close>

lemma reg_inv_iteration_adv:
  assumes "reg_inv s"
  shows "reg_inv (iteration_adv s e)"
proof -
  let ?s1 = "take_initial s (spec e)"
  let ?x = "current_time_total_minutes (at_ms e)"
  show ?thesis
  proof (cases "datalen ?s1 < maxlen
      \<and> word_of_int ms_time < at_ms e - word_of_int (datalen ?s1 * ms_time)")
    case False
    then have eq: "iteration_adv s e = ?s1" by (auto simp add: iteration_adv_def Let_def)
    from assms show ?thesis
      unfolding eq reg_inv_def by (auto simp: take_initial_simps)
  next
    case True
    then have eq: "iteration_adv s e = ?s1\<lparr>x2 := fadd (x2 ?s1) (fmul ?x ?x),
        xy := accumulate ?x (spec e) (initial ?s1) (xy ?s1),
        datalen := datalen ?s1 + 1\<rparr>"
      by (simp add: iteration_adv_def Let_def)
    have nf: "\<not> is_Fin (accumulate ?x (spec e) (initial ?s1) (xy ?s1) ! i)"
      if "i < 6" "initial ?s1 ! i = 0" for i
    proof -
      have "\<not> is_Fin (fmul (normalized (spec e ! i) 0) ?x)"
        unfolding minutes_Fin by (intro fmul_not_Fin normalized_zero_initial)
      then show ?thesis using that by (simp add: accumulate_nth fadd_not_Fin)
    qed
    from assms have "0 \<le> datalen s" by (simp add: reg_inv_def)
    with nf show ?thesis
      unfolding eq reg_inv_def by (simp add: take_initial_simps)
  qed
qed

lemma measuring_loop_adv_inv:
  assumes "reg_inv s" "measuring_loop_adv nm h s d p evs = Some (s', d', p', rest)"
  shows "reg_inv s'"
  using assms
proof (induction evs arbitrary: s d p)
  case Nil
  then show ?case by simp
next
  case (Cons e es)
  from Cons.prems(1) have i: "reg_inv (iteration_adv s e)" by (rule reg_inv_iteration_adv)
  from Cons.prems(2) obtain p1 where p1: "plot_all e p = Some p1"
    by (auto simp: Let_def split: option.splits)
  show ?case
  proof (cases "60 \<le> current_time_minutes (at_ms e) \<or> checkForButtonPress h (pins e)")
    case True
    with Cons.prems(2) p1 have "s' = iteration_adv s e" by (auto simp: Let_def split: if_splits)
    with i show ?thesis by simp
  next
    case False
    with Cons.prems(2) p1 have
      "measuring_loop_adv nm h (iteration_adv s e)
         (logData_adv nm (at_ms e) (spec e) (uv e) d) p1 es = Some (s', d', p', rest)"
      by (simp add: Let_def)
    from Cons.IH [OF i this] show ?thesis .
  qed
qed

lemma iteration_adv_initial:
  "initialTaken (iteration_adv s e)"
  "initial (iteration_adv s e) = (if initialTaken s then initial s else map (\<lambda>i. spec e ! i) [0..<6])"
  by (simp_all add: iteration_adv_def Let_def take_initial_simps)

lemma measuring_loop_adv_initial:
  assumes "measuring_loop_adv nm h s d p evs = Some (s', d', p', rest)" "initialTaken s"
  shows "initial s' = initial s"
  using assms
proof (induction evs arbitrary: s d p)
  case Nil
  then show ?case by simp
next
  case (Cons e es)
  have i: "initialTaken (iteration_adv s e)" "initial (iteration_adv s e) = initial s"
    using Cons.prems(2) by (simp_all add: iteration_adv_initial)
  from Cons.prems(1) obtain p1 where p1: "plot_all e p = Some p1"
    by (auto simp: Let_def split: option.splits)
  show ?case
  proof (cases "60 \<le> current_time_minutes (at_ms e) \<or> checkForButtonPress h (pins e)")
    case True
    with Cons.prems(1) p1 have "s' = iteration_adv s e"
      by (auto simp: Let_def split: if_splits)
    with i show ?thesis by simp
  next
    case False
    with Cons.prems(1) p1 have
      "measuring_loop_adv nm h (iteration_adv s e)
         (logData_adv nm (at_ms e) (spec e) (uv e) d) p1 es = Some (s', d', p', rest)"
      by (simp add: Let_def)
    from Cons.IH [OF this i(1)] i(2) show ?thesis by simp
  qed
qed

lemma map_nth_6: "length xs = 6 \<Longrightarrow> map (\<lambda>i. xs ! i) [0..<6] = xs"
  using map_nth [of xs] by simp

lemma measuring_loop_first:
  assumes "measuring_loop h session_init d (e # es) = Some (s', d', rest)" "length (spec e) = 6"
  shows "initial s' = spec e"
proof -
  have i: "initialTaken (iteration session_init e)" "initial (iteration session_init e) = spec e"
    using assms(2) by (simp_all add: iteration_initial session_init_def map_nth_6)
  show ?thesis
  proof (cases "fge (current_time_total_minutes (at_ms e)) (Fin 5) \<or> checkForButtonPress h (pins e)")
    case True
    with assms(1) have "s' = iteration session_init e" by (auto simp: Let_def)
    with i show ?thesis by simp
  next
    case False
    with assms(1) have
      "measuring_loop h (iteration session_init e) (logData (at_ms e) (spec e) (uv e) d) es =
         Some (s', d', rest)"
      by (simp add: Let_def)
    from measuring_loop_initial [OF this i(1)] i(2) show ?thesis by simp
  qed
qed

lemma measuring_loop_adv_first:
  assumes "measuring_loop_adv nm h session_init d p (e # es) = Some (s', d', p', rest)"
    "length (spec e) = 6"
  shows "initial s' = spec e"
proof -
  have i: "initialTaken (iteration_adv session_init e)"
    "initial (iteration_adv session_init e) = spec e"
    using assms(2) by (simp_all add: iteration_adv_initial session_init_def map_nth_6)
  from assms(1) obtain p1 where p1: "plot_all e p = Some p1"
    by (auto simp: Let_def split: option.splits)
  show ?thesis
  proof (cases "60 \<le> current_time_minutes (at_ms e) \<or> checkForButtonPress h (pins e)")
    case True
    with assms(1) p1 have "s' = iteration_adv session_init e"
      by (auto simp: Let_def split: if_splits)
    with i show ?thesis by simp
  next
    case False
    with assms(1) p1 have
      "measuring_loop_adv nm h (iteration_adv session_init e)
         (logData_adv nm (at_ms e) (spec e) (uv e) d) p1 es = Some (s', d', p', rest)"
      by (simp add: Let_def)
    from measuring_loop_adv_initial [OF this i(1)] i(2) show ?thesis by simp
  qed
qed

lemma press_now: "checkForButtonPress_loop 0 0 (\<lambda>k. 1) = True"
  by (subst checkForButtonPress_loop.simps) simp

lemma bytes_confirmations: "bytes ''>><>>>'' = [62, 62, 60, 62, 62, 62]"
  by (simp add: bytes_def)

lemma dec_int_0: "dec_int 0 = ''0''"
  by code_simp

lemmas adv_defs = measuringMenu1_adv_def start_session_adv_def writeConfig_def writeFile_def
  config_image_def sendSDCommand_def waitForChar_def emit_def
  boot_def steady_def iteration_adv_def take_initial_def session_init_def logData_adv_def
  current_time_total_minutes_def time_resolution_multiplier_def maxlen_def ms_time_def
  accumulate_def normalized_def signal_resolution_multiplier_def fsub_def signed_inf_def
  setHomeMenu_def checkForButtonPress_def no_press press_now upt_6 Let_def dec_int_0
  bytes_confirmations plot_all_def plots_init_def graphColor_def graph_init_def
  calculateGraphPosition_def float_to_int_def int8_t_def current_time_minutes_def
  single_values INT_MAX_def


lemma map_option_fst_snd:
  "map_option (fst \<circ> snd) x = Some v \<Longrightarrow> map_option (g \<circ> fst \<circ> snd) x = Some (g v)"
  by (cases x) auto

lemma scenario_A_run:
  "map_option fst (measuringMenu1_adv 0 scenario_A (boot (bytes ''>><>>>'')) plots_init) =
     Some (finish \<lparr>x2 = Fin 14000000,
                   xy = [Fin 7399994000, Fin 7399994000, Fin 7399994000,
                         Fin 7399994000, Fin 7399994000, Fin 7399994000],
                   datalen = 3, initial = [100, 100, 100, 100, 100, 100],
                   initialTaken = True, past_time = 0\<rparr>)"
  by (simp add: adv_defs scenario_A_def)

lemma short_adv_run:
  "map_option (fst \<circ> snd) (measuringMenu1_adv 0 [steady 250 100 1] (boot (bytes ''>><>>>'')) plots_init) =
     Some \<lparr>index = 1, calibration = [0, 0, 0, 0, 0, 0], uvCalibration = 0,
            currentMenu = 0, currentSelection = 0, sd_in = [],
            sd_out = config_commands @ config_image (boot []\<lparr>index := 1\<rparr>) @
              [PrintStr ''rm'', PrintStr '' '', PrintStr ''LOG0.CSV'', WriteByte 13,
               PrintStr ''new'', PrintStr '' '', PrintStr ''LOG0.CSV'', WriteByte 13,
               PrintStr ''append '', PrintStr ''LOG0.CSV'', WriteByte 13,
               PrintStr ''time,red,orange,yellow,green,blue,violet,uv'',
               WriteByte 26, WriteByte 26, WriteByte 26,
               PrintStr ''append '', PrintStr ''LOG0.CSV'', WriteByte 13, PrintULong 250,
               PrintStr '','', PrintFloat 100, PrintStr '','', PrintFloat 100,
               PrintStr '','', PrintFloat 100, PrintStr '','', PrintFloat 100,
               PrintStr '','', PrintFloat 100, PrintStr '','', PrintFloat 100,
               PrintStr '','', PrintInt 0, WriteByte 26, WriteByte 26, WriteByte 26,
               WriteByte 13]\<rparr>"
  by (simp add: adv_defs finish_def config_commands_def)



text \<open>
  Claim C7, amended. In both builds the initial readings of a session are those of the
  first sample the loop reads, whether or not that sample is accepted; the flag
  \<open>initialTaken\<close> keeps every later sample from replacing them.
\<close>

theorem initial_from_first_sample:
  assumes "length (spec e) = 6"
  shows "(measuringMenu1 h (e # es) d = Some (r, d') \<longrightarrow> initial (final r) = spec e) \<and>
         (measuringMenu1_adv h (e # es) d p = Some (r2, d2, p2) \<longrightarrow> initial (final r2) = spec e)"
proof (intro conjI impI)
  assume "measuringMenu1 h (e # es) d = Some (r, d')"
  then obtain d1 s d3 rest where
    "measuring_loop h session_init d1 (e # es) = Some (s, d3, rest)" "r = finish s"
    by (rule measuringMenu1_Some)
  with assms show "initial (final r) = spec e"
    by (simp add: measuring_loop_first finish_def Let_def)
next
  assume "measuringMenu1_adv h (e # es) d p = Some (r2, d2, p2)"
  then obtain nm d1 s d3 rest where
    "measuring_loop_adv nm h session_init d1 p (e # es) = Some (s, d3, p2, rest)" "r2 = finish s"
    by (rule measuringMenu1_adv_Some)
  with assms show "initial (final r2) = spec e"
    by (simp add: measuring_loop_adv_first finish_def Let_def)
qed

theorem initial_from_first_sample_witness:
  "(\<exists>r d'. measuringMenu1 0 [steady 250 100 0, steady 6500 110 0] (boot [62, 62]) = Some (r, d') \<and>
      initial (final r) = [100, 100, 100, 100, 100, 100]) \<and>
   (\<exists>r d' p'. measuringMenu1_adv 0 [steady 250 100 1] (boot (bytes ''>><>>>'')) plots_init =
        Some (r, d', p') \<and>
      initial (final r) = [100, 100, 100, 100, 100, 100])"
proof -
  have l: "length (spec (steady 250 100 0)) = 6" "length (spec (steady 250 100 1)) = 6"
    by (simp_all add: steady_def)
  obtain r1 d1 where
    1: "measuringMenu1 0 [steady 250 100 0, steady 6500 110 0] (boot [62, 62]) = Some (r1, d1)"
    by (simp add: run_defs)
  with initial_from_first_sample [OF l(1)]
  have a: "initial (final r1) = spec (steady 250 100 0)" by blast
  from short_adv_run obtain r2 d2 p2 where
    2: "measuringMenu1_adv 0 [steady 250 100 1] (boot (bytes ''>><>>>'')) plots_init =
        Some (r2, d2, p2)"
    by auto
  with initial_from_first_sample [OF l(2)]
  have b: "initial (final r2) = spec (steady 250 100 1)" by blast
  from 1 2 a b show ?thesis by (simp add: steady_def)
qed

text \<open>
  Claim C3 as stated fails. A session that ends with no accepted sample hands six
  not-a-number slopes to the result calculation, and a session whose initial readings are
  zero hands it six infinite slopes; neither is an explicit failure.
\<close>

theorem slopes_counterexample:
  "map_option (slopes \<circ> fst) (measuringMenu1 0 [steady 300 100 0] (boot [62, 62])) =
     Some [NaN, NaN, NaN, NaN, NaN, NaN] \<and>
   map_option (slopes \<circ> fst)
     (measuringMenu1 0 [steady 250 0 0, steady 6500 100 0] (boot [62, 62])) =
     Some [PInf, PInf, PInf, PInf, PInf, PInf]"
  by (simp add: run_defs)

text \<open>
  Claim C3, amended. At the end of a session of either build each of the six slopes is
  the floating-point quotient \<open>xy[i] / x2\<close> of the two sums, computed without any
  test of the divisor or of the initial reading. With no accepted sample every slope is
  \<open>0 / 0\<close>, not-a-number; once a sample has been accepted, the slope of a channel
  whose initial reading is zero is infinite or not-a-number. No failure value exists: the
  slopes go to the placeholder calculation, which reports concentration 0 and
  \<open>NO_LEAK\<close> whatever they are.
\<close>

theorem slopes_unguarded:
  assumes "measuringMenu1 h evs d = Some (r, d') \<or>
           measuringMenu1_adv h evs d p = Some (r, d2, p2)"
  shows "length (slopes r) = 6 \<and>
         (\<forall>i<6. slopes r ! i = fdiv (xy (final r) ! i) (x2 (final r))) \<and>
         (datalen (final r) = 0 \<longrightarrow> slopes r = [NaN, NaN, NaN, NaN, NaN, NaN]) \<and>
         (\<forall>i<6. 0 < datalen (final r) \<and> initial (final r) ! i = 0
                  \<longrightarrow> \<not> is_Fin (slopes r ! i)) \<and>
         concentration r = Fin 0 \<and> result r = NO_LEAK"
proof -
  from assms have "\<exists>s. r = finish s \<and> reg_inv s"
  proof
    assume "measuringMenu1 h evs d = Some (r, d')"
    then obtain d1 s d3 rest where
      l: "measuring_loop h session_init d1 evs = Some (s, d3, rest)" and r: "r = finish s"
      by (rule measuringMenu1_Some)
    from measuring_loop_inv [OF reg_inv_init l] r show ?thesis by blast
  next
    assume "measuringMenu1_adv h evs d p = Some (r, d2, p2)"
    then obtain nm d1 s d3 rest where
      l: "measuring_loop_adv nm h session_init d1 p evs = Some (s, d3, p2, rest)"
      and r: "r = finish s"
      by (rule measuringMenu1_adv_Some)
    from measuring_loop_adv_inv [OF reg_inv_init l] r show ?thesis by blast
  qed
  then obtain s where r: "r = finish s" and inv: "reg_inv s" by blast
  have f: "final r = s" "slopes r = processSlopes (xy s) (x2 s)"
    "concentration r = Fin 0" "result r = NO_LEAK"
    by (simp_all add: r finish_def Let_def calculateConcentration_def calculateResult_def)
  have len: "length (slopes r) = 6" by (simp add: f processSlopes_def)
  have q: "slopes r ! i = fdiv (xy s ! i) (x2 s)" if "i < 6" for i
    using that by (simp add: f processSlopes_nth)
  have a: "slopes r = [NaN, NaN, NaN, NaN, NaN, NaN]" if "datalen s = 0"
    using inv that by (simp add: f reg_inv_def processSlopes_zero)
  have b: "\<not> is_Fin (slopes r ! i)" if "i < 6" "0 < datalen s" "initial s ! i = 0" for i
  proof -
    from inv that have "\<not> is_Fin (xy s ! i)" by (simp add: reg_inv_def)
    with that show ?thesis by (simp add: q fdiv_not_Fin)
  qed
  from len q a b f show ?thesis by simp
qed

theorem slopes_unguarded_witness:
  "map_option (slopes \<circ> fst) (measuringMenu1 0 [steady 300 100 0] (boot [62, 62])) =
     Some [NaN, NaN, NaN, NaN, NaN, NaN] \<and>
   (\<exists>r d'. measuringMenu1 0 [steady 250 0 0, steady 6500 100 0] (boot [62, 62]) = Some (r, d') \<and>
       \<not> is_Fin (slopes r ! 0)) \<and>
   (\<exists>r d' p'. measuringMenu1_adv 0 [steady 250 100 1] (boot (bytes ''>><>>>'')) plots_init =
        Some (r, d', p') \<and> slopes r = [NaN, NaN, NaN, NaN, NaN, NaN]) \<and>
   (\<exists>r d' p'. measuringMenu1_adv 0 [steady 250 0 0, steady 6500 100 1]
                 (boot (bytes ''>><>>>'')) plots_init = Some (r, d', p') \<and>
       \<not> is_Fin (slopes r ! 0)) \<and>
   (\<exists>r d' p'. measuringMenu1_adv 0 scenario_A (boot (bytes ''>><>>>'')) plots_init =
        Some (r, d', p') \<and> slopes r ! 0 = fdiv (Fin 7399994000) (Fin 14000000))"
proof -
  obtain r1 d1 where 1: "measuringMenu1 0 [steady 300 100 0] (boot [62, 62]) = Some (r1, d1)"
    and "datalen (final r1) = 0"
    by (simp add: run_defs)
  with slopes_unguarded [of 0 "[steady 300 100 0]" "boot [62, 62]" r1 d1]
  have a: "slopes r1 = [NaN, NaN, NaN, NaN, NaN, NaN]" by simp
  obtain r2 d2 where
    2: "measuringMenu1 0 [steady 250 0 0, steady 6500 100 0] (boot [62, 62]) = Some (r2, d2)"
    and z2: "0 < datalen (final r2)" "initial (final r2) ! 0 = 0"
    by (simp add: run_defs)
  from slopes_unguarded [of 0 "[steady 250 0 0, steady 6500 100 0]" "boot [62, 62]" r2 d2] 2
  have "\<And>i. i < 6 \<Longrightarrow> 0 < datalen (final r2) \<Longrightarrow> initial (final r2) ! i = 0
          \<Longrightarrow> \<not> is_Fin (slopes r2 ! i)"
    by blast
  from this [of 0] z2 have b: "\<not> is_Fin (slopes r2 ! 0)" by simp
  obtain r3 d3 p3 where
    3: "measuringMenu1_adv 0 [steady 250 100 1] (boot (bytes ''>><>>>'')) plots_init =
        Some (r3, d3, p3)"
    and "datalen (final r3) = 0"
    by (simp add: adv_defs finish_def)
  with slopes_unguarded [of 0 "[steady 250 100 1]" "boot (bytes ''>><>>>'')" r3 d3 plots_init d3 p3]
  have c: "slopes r3 = [NaN, NaN, NaN, NaN, NaN, NaN]" by simp
  obtain r4 d4 p4 where
    4: "measuringMenu1_adv 0 [steady 250 0 0, steady 6500 100 1]
          (boot (bytes ''>><>>>'')) plots_init = Some (r4, d4, p4)"
    and z4: "0 < datalen (final r4)" "initial (final r4) ! 0 = 0"
    by (simp add: adv_defs finish_def)
  from slopes_unguarded [of 0 "[steady 250 0 0, steady 6500 100 1]" "boot (bytes ''>><>>>'')"
      r4 d4 plots_init d4 p4] 4
  have "\<And>i. i < 6 \<Longrightarrow> 0 < datalen (final r4) \<Longrightarrow> initial (final r4) ! i = 0
          \<Longrightarrow> \<not> is_Fin (slopes r4 ! i)"
    by blast
  from this [of 0] z4 have d: "\<not> is_Fin (slopes r4 ! 0)" by simp
  from scenario_A_run obtain r5 d5 p5 where
    5: "measuringMenu1_adv 0 scenario_A (boot (bytes ''>><>>>'')) plots_init = Some (r5, d5, p5)"
    and v5: "xy (final r5) ! 0 = Fin 7399994000" "x2 (final r5) = Fin 14000000"
    by (auto simp: finish_def Let_def)
  from slopes_unguarded [of 0 scenario_A "boot (bytes ''>><>>>'')" r5 d5 plots_init d5 p5] 5
  have "\<And>i. i < 6 \<Longrightarrow> slopes r5 ! i = fdiv (xy (final r5) ! i) (x2 (final r5))"
    by blast
  from this [of 0] v5 have e: "slopes r5 ! 0 = fdiv (Fin 7399994000) (Fin 14000000)" by simp
  from 1 2 3 4 5 a b c d e show ?thesis by simp
qed

text \<open>
  Claim C9 as stated fails. In the advanced build a session started on the freshly booted
  device leaves the index at 1, and the first twelve items it sends are the three
  commands that replace the configuration file.
\<close>

theorem session_config_counterexample:
  "map_option (index \<circ> fst \<circ> snd)
     (measuringMenu1_adv 0 [steady 250 100 1] (boot (bytes ''>><>>>'')) plots_init) = Some 1 \<and>
   map_option (take 12 \<circ> sd_out \<circ> fst \<circ> snd)
     (measuringMenu1_adv 0 [steady 250 100 1] (boot (bytes ''>><>>>'')) plots_init) =
     Some config_commands"
proof -
  note r = map_option_fst_snd [OF short_adv_run]
  show ?thesis
    unfolding r by (simp add: config_commands_def)
qed

text \<open>
  Claim C9, amended. In the basic build a measuring session leaves the index and the
  calibration untouched, and everything it sends to the storage device is the commands
  that replace \<open>LOG.CSV\<close> followed by one log line for each iteration: no command and
  no data for the configuration file. In the advanced build every measuring session with
  a defined result starts from an index below \<open>INT_MAX\<close> (32767), increments the
  index by one, keeps the calibration, and first rewrites the configuration file with the
  new index.
\<close>

theorem measuring_session_config:
  "(measuringMenu1 h evs d = Some (r, d') \<longrightarrow>
      index d' = index d \<and> calibration d' = calibration d \<and>
      uvCalibration d' = uvCalibration d \<and>
      (\<exists>n. 0 < n \<and> n \<le> length evs \<and>
           sd_out d' = sd_out d @ new_log_commands @ concat (map log_line (take n evs)))) \<and>
   (measuringMenu1_adv h evs d p = Some (r2, d2, p2) \<longrightarrow>
      index d < INT_MAX \<and> index d2 = index d + 1 \<and>
      calibration d2 = calibration d \<and> uvCalibration d2 = uvCalibration d \<and>
      (\<exists>out. sd_out d2 = sd_out d @ config_commands
                @ config_image (d\<lparr>index := index d + 1\<rparr>) @ out))"
  using measuringMenu1_device [of h evs d r d']
    measuringMenu1_adv_device [of h evs d p r2 d2 p2]
  by blast

theorem measuring_session_config_witness:
  "(\<exists>r d'. measuringMenu1 0 [steady 300 100 0] (boot [62, 62]) = Some (r, d') \<and>
      index d' = 0 \<and> sd_out d' = new_log_commands @ log_line (steady 300 100 0)) \<and>
   (\<exists>r d' p'. measuringMenu1_adv 0 [steady 250 100 1] (boot (bytes ''>><>>>'')) plots_init =
        Some (r, d', p') \<and> index d' = 1 \<and>
        take 12 (sd_out d') = config_commands)"
proof -
  obtain r1 d1 where
    1: "measuringMenu1 0 [steady 300 100 0] (boot [62, 62]) = Some (r1, d1)"
    by (simp add: run_defs)
  from short_adv_run obtain r2 d2 p2 where
    2: "measuringMenu1_adv 0 [steady 250 100 1] (boot (bytes ''>><>>>'')) plots_init =
        Some (r2, d2, p2)"
    by auto
  from measuring_session_config [of 0 "[steady 300 100 0]" "boot [62, 62]" r1 d1
      plots_init r1 d1 plots_init] 1
  have "index d1 = index (boot [62, 62]) \<and>
      (\<exists>n. 0 < n \<and> n \<le> length [steady 300 100 0] \<and>
           sd_out d1 = sd_out (boot [62, 62]) @ new_log_commands
             @ concat (map log_line (take n [steady 300 100 0])))"
    by blast
  then obtain n where i: "index d1 = 0" and n: "0 < n" "n \<le> 1" and
    o: "sd_out d1 = new_log_commands @ concat (map log_line (take n [steady 300 100 0]))"
    by (auto simp: boot_def)
  from n have "n = 1" by simp
  with o have a: "sd_out d1 = new_log_commands @ log_line (steady 300 100 0)" by simp
  from measuring_session_config [of 0 "[steady 250 100 1]" "boot (bytes ''>><>>>'')" r2 d2
      plots_init r2 d2 p2] 2
  have "index d2 = index (boot (bytes ''>><>>>'')) + 1 \<and>
      (\<exists>out. sd_out d2 = sd_out (boot (bytes ''>><>>>'')) @ config_commands
         @ config_image (boot (bytes ''>><>>>'')\<lparr>index := index (boot (bytes ''>><>>>'')) + 1\<rparr>)
         @ out)"
    by blast
  then have b: "index d2 = 1 \<and> take 12 (sd_out d2) = config_commands"
    by (auto simp: boot_def config_commands_def)
  from 1 2 i a b show ?thesis by simp
qed

section \<open>Properties of the configuration file\<close>


lemma waitForChar_loop_subseq:
  "subseq (c # cs) inp \<Longrightarrow> c \<noteq> -1 \<Longrightarrow> \<exists>r. waitForChar_loop c inp = Some r \<and> subseq cs r"
proof (induction inp)
  case Nil
  then show ?case by simp
next
  case (Cons b bs)
  show ?case
  proof (cases "b = c")
    case True
    with Cons.prems show ?thesis by simp
  next
    case False
    with Cons.prems have "subseq (c # cs) bs" by (simp add: subseq_Cons2_neq)
    from Cons.IH [OF this Cons.prems(2)] False show ?thesis by simp
  qed
qed

lemma waitForChar_subseq:
  assumes "subseq (of_char c # cs) (sd_in d)" "(of_char c :: int) \<noteq> -1"
  shows "\<exists>d'. waitForChar c d = Some d' \<and> subseq cs (sd_in d')"
  using waitForChar_loop_subseq [OF assms] by (auto simp: waitForChar_def)

lemma sendSDCommand_subseq:
  assumes "subseq (of_char c # cs) (sd_in d)" "(of_char c :: int) \<noteq> -1"
  shows "\<exists>d'. sendSDCommand cmd f c d = Some d' \<and> subseq cs (sd_in d')"
  unfolding sendSDCommand_def using assms
  by (intro waitForChar_subseq) (simp_all add: emit_def)

lemma writeConfig_returns:
  assumes "subseq [62, 62, 60, 62] (sd_in d)"
  shows "\<exists>d'. writeConfig d = Some d'"
proof -
  from assms obtain d1 where
    1: "sendSDCommand ''rm'' ''config.csv'' CHR ''>'' d = Some d1" "subseq [62, 60, 62] (sd_in d1)"
    using sendSDCommand_subseq [of "CHR ''>''" "[62, 60, 62]" d] by auto
  then obtain d2 where
    2: "sendSDCommand ''new'' ''config.csv'' CHR ''>'' d1 = Some d2" "subseq [60, 62] (sd_in d2)"
    using sendSDCommand_subseq [of "CHR ''>''" "[60, 62]" d1] by auto
  then obtain d3 where
    3: "sendSDCommand ''write'' ''config.csv'' CHR ''<'' d2 = Some d3" "subseq [62] (sd_in d3)"
    using sendSDCommand_subseq [of "CHR ''<''" "[62]" d2] by auto
  then have "subseq [of_char CHR ''>''] (sd_in (emit (config_image d3) d3))"
    by (simp add: emit_def)
  then obtain d4 where "waitForChar CHR ''>'' (emit (config_image d3) d3) = Some d4"
    using waitForChar_subseq [of "CHR ''>''" "[]"] by auto
  with 1 2 3 show ?thesis by (simp add: writeConfig_def writeFile_def)
qed

lemma header_at_nth:
  assumes "0 \<le> f" "f < int (length header)"
  shows "header_at header f = of_char (header ! nat f)"
proof -
  from assms have "nat f < length header" by linarith
  with assms show ?thesis by (simp add: header_at_def)
qed

lemma checkHeader_loop_True:
  assumes "checkHeader_loop header (int (length header)) t f inp = (True, rest)"
    "0 \<le> f" "f < int (length header)"
  shows "prefix (bytes (drop (nat f) header)) (chars_of inp)"
  using assms
proof (induction header "int (length header)" t f inp rule: checkHeader_loop.induct)
  case (1 header timeOut filePosition inp)
  from "1.prems"(1) have t: "timeOut < 1000"
    by (subst (asm) checkHeader_loop.simps) (simp split: if_splits)
  show ?case
  proof (cases inp)
    case Nil
    with t "1.prems"(1) have
      "checkHeader_loop header (int (length header)) (timeOut + 1) filePosition [] = (True, rest)"
      by (subst (asm) checkHeader_loop.simps) simp
    from "1.hyps"(1) [OF t Nil this "1.prems"(2,3)] Nil show ?thesis by simp
  next
    case (Cons b bs)
    show ?thesis
    proof (cases "0 < int8_t b")
      case False
      with t Cons "1.prems"(1) have
        "checkHeader_loop header (int (length header)) (timeOut + 1) filePosition bs = (True, rest)"
        by (subst (asm) checkHeader_loop.simps) simp
      from "1.hyps"(3) [OF t Cons False this "1.prems"(2,3)] False Cons
      show ?thesis by (simp add: chars_of_def)
    next
      case True
      with t Cons "1.prems"(1) have m: "int8_t b = header_at header filePosition"
        by (subst (asm) checkHeader_loop.simps) (simp split: if_splits)
      from "1.prems"(2,3) have n: "nat filePosition < length header" by linarith
      then have d: "drop (nat filePosition) header =
          header ! nat filePosition # drop (Suc (nat filePosition)) header"
        by (simp add: Cons_nth_drop_Suc)
      from m "1.prems"(2,3) have hd: "int8_t b = of_char (header ! nat filePosition)"
        by (simp add: header_at_nth)
      show ?thesis
      proof (cases "filePosition = int (length header) - 1")
        case last: True
        then have "drop (Suc (nat filePosition)) header = []" by simp
        with d hd True Cons show ?thesis by (simp add: chars_of_def bytes_def)
      next
        case notlast: False
        with t Cons True m "1.prems"(1) have
          "checkHeader_loop header (int (length header)) 0 (filePosition + 1) bs = (True, rest)"
          by (subst (asm) checkHeader_loop.simps) simp
        moreover from notlast "1.prems"(2,3) have "0 \<le> filePosition + 1"
          "filePosition + 1 < int (length header)" by simp_all
        ultimately have "prefix (bytes (drop (nat (filePosition + 1)) header)) (chars_of bs)"
          using "1.hyps"(2) [OF t Cons True m notlast] by blast
        moreover from "1.prems"(2) have "nat (filePosition + 1) = Suc (nat filePosition)" by simp
        ultimately show ?thesis using d hd True Cons by (simp add: chars_of_def bytes_def)
      qed
    qed
  qed
qed

lemma loadConfig_fallback:
  assumes "reply_body (sd_in d) = Some body"
    and "checkHeader_loop configHeader 20 0 0 body = (False, rest)"
  shows "loadConfig atoi atof d =
           writeConfig (d\<lparr>sd_out := sd_out d @ [PrintStr ''read'', PrintStr '' '',
                                                PrintStr ''config.csv'', WriteByte 13],
                          sd_in := rest\<rparr>)"
proof -
  from assms(1) obtain i1 i2 where w: "waitForChar_loop 13 (sd_in d) = Some i1"
    "waitForChar_loop 13 i1 = Some i2" "waitForChar_loop 10 i2 = Some body"
    by (auto simp: reply_body_def split: option.splits)
  with assms(2) show ?thesis
    by (simp add: loadConfig_def sendSDCommand_def waitForChar_def checkHeader_def emit_def)
qed

lemma c_string_7: "c_string [55] = ''7''"
  by code_simp

lemma atoi_c_7: "atoi_c ''7'' = 7"
  by code_simp

text \<open>
  Claim C8 as stated fails. A stored file whose first line is the header followed by the
  character 7 differs from the header, yet the check passes after 20 bytes: the index 7
  is adopted and nothing is written back.
\<close>

theorem loadConfig_counterexample:
  "map_option index
     (loadConfig atoi_c atof_c
        (boot (bytes ''read config.csv'' @ [13, 13, 10] @ bytes ''index,r,o,y,g,b,v,uv7''
               @ [13, 10] @ bytes ''>''))) = Some 7 \<and>
   map_option sd_out
     (loadConfig atoi_c atof_c
        (boot (bytes ''read config.csv'' @ [13, 13, 10] @ bytes ''index,r,o,y,g,b,v,uv7''
               @ [13, 10] @ bytes ''>''))) =
     Some [PrintStr ''read'', PrintStr '' '', PrintStr ''config.csv'', WriteByte 13]"
  by (simp add: loadConfig_def sendSDCommand_def waitForChar_def checkHeader_def emit_def
      boot_def bytes_def configHeader_def checkHeader_loop.simps header_at_def int8_t_def
      readConfigData_def readConfigData_loop.simps updateGlobalConfig_def c_string_7
      atoi_c_7)

text \<open>
  Claim C8, amended. Let the characters that follow the carriage return and line feed of
  the device's reply (the bytes 1 to 127) not begin with the 20 bytes of the header: a
  character among the first 20 differs, or the file is cut short or absent. Then
  \<open>loadConfig\<close>, once the device confirms the three commands and the write, returns
  with the profile it started with (at boot, the zero-valued default) and has written that
  profile back. A first line that goes on after the 20 bytes of the header passes the
  check instead.
\<close>

theorem loadConfig_header_mismatch:
  assumes "default_profile d"
    and "reply_body (sd_in d) = Some body"
    and "\<not> prefix (bytes configHeader) (chars_of body)"
    and "subseq [62, 62, 60, 62] (snd (checkHeader_loop configHeader 20 0 0 body))"
  shows "\<exists>d'. loadConfig atoi atof d = Some d' \<and> default_profile d' \<and>
              sd_out d' = sd_out d
                @ [PrintStr ''read'', PrintStr '' '', PrintStr ''config.csv'', WriteByte 13]
                @ config_commands @ config_image d"
proof -
  obtain ok rest where c: "checkHeader_loop configHeader 20 0 0 body = (ok, rest)"
    by (cases "checkHeader_loop configHeader 20 0 0 body")
  have "\<not> ok"
  proof
    assume ok
    with c have "checkHeader_loop configHeader (int (length configHeader)) 0 0 body = (True, rest)"
      by (simp add: configHeader_def)
    then have "prefix (bytes (drop (nat 0) configHeader)) (chars_of body)"
      by (rule checkHeader_loop_True) (simp_all add: configHeader_def)
    with assms(3) show False by simp
  qed
  with c have f: "checkHeader_loop configHeader 20 0 0 body = (False, rest)" by simp
  let ?d2 = "d\<lparr>sd_out := sd_out d @ [PrintStr ''read'', PrintStr '' '',
                                     PrintStr ''config.csv'', WriteByte 13],
               sd_in := rest\<rparr>"
  have l: "loadConfig atoi atof d = writeConfig ?d2"
    using assms(2) f by (rule loadConfig_fallback)
  from assms(4) f have "subseq [62, 62, 60, 62] (sd_in ?d2)" by simp
  then obtain d' where w: "writeConfig ?d2 = Some d'"
    using writeConfig_returns by blast
  from writeConfig_Some [OF w] obtain r where
    d': "d' = ?d2\<lparr>sd_in := r, sd_out := sd_out ?d2 @ config_commands @ config_image ?d2\<rparr>"
    by blast
  have "config_image ?d2 = config_image d" by (simp add: config_image_def)
  with d' assms(1) have "default_profile d'" "sd_out d' = sd_out d
      @ [PrintStr ''read'', PrintStr '' '', PrintStr ''config.csv'', WriteByte 13]
      @ config_commands @ config_image d"
    by (simp_all add: default_profile_def)
  with l w show ?thesis by simp
qed

lemma mismatch_input:
  "reply_body (bytes ''read config.csv'' @ [13, 13, 10] @ bytes ''index,r,o,y,g,b,v,ux''
     @ [13, 10] @ bytes ''7,1.00,2.00'' @ [13, 10] @ bytes ''>>><>'') =
     Some (bytes ''index,r,o,y,g,b,v,ux'' @ [13, 10] @ bytes ''7,1.00,2.00'' @ [13, 10]
           @ bytes ''>>><>'')"
  by (simp add: reply_body_def bytes_def)

lemma mismatch_check:
  "checkHeader_loop configHeader 20 0 0
     (bytes ''index,r,o,y,g,b,v,ux'' @ [13, 10] @ bytes ''7,1.00,2.00'' @ [13, 10]
      @ bytes ''>>><>'') =
     (False, [13, 10] @ bytes ''7,1.00,2.00'' @ [13, 10] @ bytes ''>>><>'')"
  by (simp add: bytes_def configHeader_def checkHeader_loop.simps header_at_def int8_t_def)

theorem loadConfig_header_mismatch_witness:
  "\<exists>d'. loadConfig atoi_c atof_c
          (boot (bytes ''read config.csv'' @ [13, 13, 10] @ bytes ''index,r,o,y,g,b,v,ux''
                 @ [13, 10] @ bytes ''7,1.00,2.00'' @ [13, 10] @ bytes ''>>><>'')) = Some d' \<and>
        index d' = 0 \<and> calibration d' = [0, 0, 0, 0, 0, 0] \<and> uvCalibration d' = 0 \<and>
        sd_out d' =
          [PrintStr ''read'', PrintStr '' '', PrintStr ''config.csv'', WriteByte 13]
          @ config_commands @ config_image (boot [])"
proof -
  let ?inp = "bytes ''read config.csv'' @ [13, 13, 10] @ bytes ''index,r,o,y,g,b,v,ux''
      @ [13, 10] @ bytes ''7,1.00,2.00'' @ [13, 10] @ bytes ''>>><>''"
  let ?body = "bytes ''index,r,o,y,g,b,v,ux'' @ [13, 10] @ bytes ''7,1.00,2.00'' @ [13, 10]
      @ bytes ''>>><>''"
  have 1: "default_profile (boot ?inp)" by (simp add: default_profile_def boot_def)
  have 2: "reply_body (sd_in (boot ?inp)) = Some ?body"
    using mismatch_input by (simp add: boot_def)
  have 3: "\<not> prefix (bytes configHeader) (chars_of ?body)"
    by (simp add: bytes_def configHeader_def chars_of_def int8_t_def)
  have 4: "subseq [62, 62, 60, 62] (snd (checkHeader_loop configHeader 20 0 0 ?body))"
    unfolding mismatch_check by (simp add: bytes_def)
  from loadConfig_header_mismatch [OF 1 2 3 4, of atoi_c atof_c]
  show ?thesis by (simp add: default_profile_def boot_def config_image_def)
qed

end
